theory Spec2Isabelle
  imports
    Complex_Main
    "HOL-Library.Sublist"
    "HOL-Library.AList"
    "HOL-Library.Char_ord"
    "HOL-Library.List_Lexorder"
    "HOL-Library.Product_Lexorder"
begin

section \<open>Python values: errors, strings, paths\<close>

text \<open>
  The generator is a Python script. Its exceptions are modelled as values of
  \<open>py_error\<close>; a computation that may raise returns \<open>py_error + 'a\<close>
  with \<open>Inl\<close> the exception. Strings are \<open>string\<close> (byte lists), paths
  are strings as well.
\<close>

datatype py_error =
    IndexError
  | KeyError string
  | ValueError string
  | RuntimeError string
  | AttributeError string
  | FileNotFoundError string
  | IsADirectoryError string
  | OSError string
  | CalledProcessError string
  | TemplateSyntaxError string

type_synonym path = string

text \<open>\<open>xs[i]\<close> for a non-negative index: out of range raises \<open>IndexError\<close>.\<close>

definition py_index :: "'a list \<Rightarrow> nat \<Rightarrow> py_error + 'a" where
  "py_index xs i = (if i < length xs then Inr (xs ! i) else Inl IndexError)"

subsection \<open>String methods\<close>

text \<open>
  \<open>s.split(sep)\<close>: cut at every non-overlapping occurrence of \<open>sep\<close>, scanning
  from the left. Every separator of the program is a non-empty literal (Python raises
  on an empty one; the model then returns the string whole).
\<close>

function str_split :: "string \<Rightarrow> string \<Rightarrow> string list" where
  "str_split sep [] = [[]]"
| "str_split sep (x # xs) =
     (if sep \<noteq> [] \<and> prefix sep (x # xs)
      then [] # str_split sep (drop (length sep) (x # xs))
      else (case str_split sep xs of
              [] \<Rightarrow> [[x]]
            | p # ps \<Rightarrow> (x # p) # ps))"
  by pat_completeness auto
termination
  by (relation "measure (\<lambda>(sep, s). length s)") auto

text \<open>\<open>sep.join(xs)\<close>.\<close>

fun str_join :: "string \<Rightarrow> string list \<Rightarrow> string" where
  "str_join sep [] = []"
| "str_join sep [x] = x"
| "str_join sep (x # y # ys) = x @ sep @ str_join sep (y # ys)"

text \<open>
  \<open>s.strip()\<close> removes leading and trailing whitespace characters. A string of the
  model is the UTF-8 encoding of Python's text, so a whitespace character is one to
  three bytes: the ASCII characters 9 to 13, 28 to 31 and the blank, and the encodings
  of U+0085, U+00A0, U+1680, U+2000 to U+200A, U+2028, U+2029, U+202F, U+205F and
  U+3000 (the characters for which \<open>str.isspace\<close> holds).
\<close>

definition whitespace :: "string list" where
  "whitespace =
     [[CHR 0x09], [CHR 0x0A], [CHR 0x0B], [CHR 0x0C], [CHR 0x0D], [CHR 0x1C], [CHR 0x1D],
      [CHR 0x1E], [CHR 0x1F], [CHR 0x20], [CHR 0xC2, CHR 0x85], [CHR 0xC2, CHR 0xA0],
      [CHR 0xE1, CHR 0x9A, CHR 0x80], [CHR 0xE2, CHR 0x80, CHR 0x80],
      [CHR 0xE2, CHR 0x80, CHR 0x81], [CHR 0xE2, CHR 0x80, CHR 0x82],
      [CHR 0xE2, CHR 0x80, CHR 0x83], [CHR 0xE2, CHR 0x80, CHR 0x84],
      [CHR 0xE2, CHR 0x80, CHR 0x85], [CHR 0xE2, CHR 0x80, CHR 0x86],
      [CHR 0xE2, CHR 0x80, CHR 0x87], [CHR 0xE2, CHR 0x80, CHR 0x88],
      [CHR 0xE2, CHR 0x80, CHR 0x89], [CHR 0xE2, CHR 0x80, CHR 0x8A],
      [CHR 0xE2, CHR 0x80, CHR 0xA8], [CHR 0xE2, CHR 0x80, CHR 0xA9],
      [CHR 0xE2, CHR 0x80, CHR 0xAF], [CHR 0xE2, CHR 0x81, CHR 0x9F],
      [CHR 0xE3, CHR 0x80, CHR 0x80]]"

text \<open>The length of the one of \<open>ws\<close> that \<open>s\<close> starts with; 0 when there is none.\<close>

definition space_at :: "string list \<Rightarrow> string \<Rightarrow> nat" where
  "space_at ws s = (case find (\<lambda>u. prefix u s) ws of None \<Rightarrow> 0 | Some u \<Rightarrow> length u)"

function strip_left :: "string list \<Rightarrow> string \<Rightarrow> string" where
  "strip_left ws s =
     (if s \<noteq> [] \<and> 0 < space_at ws s then strip_left ws (drop (space_at ws s) s) else s)"
  by pat_completeness auto
termination
  by (relation "measure (\<lambda>(ws, s). length s)") auto

declare strip_left.simps [simp del]

definition lstrip :: "string \<Rightarrow> string" where
  "lstrip s = strip_left whitespace s"

definition rstrip :: "string \<Rightarrow> string" where
  "rstrip s = rev (strip_left (map rev whitespace) (rev s))"

definition strip :: "string \<Rightarrow> string" where
  "strip s = rstrip (lstrip s)"

text \<open>
  \<open>s.lower()\<close>, \<open>s.upper()\<close> and \<open>s.capitalize()\<close>. The model maps the
  ASCII letters and leaves every other byte as it is, so it agrees with Python on
  strings whose letters are ASCII.
\<close>

definition lower_char :: "char \<Rightarrow> char" where
  "lower_char c =
     (let n = (of_char c :: nat) in if 65 \<le> n \<and> n \<le> 90 then char_of (n + 32) else c)"

definition upper_char :: "char \<Rightarrow> char" where
  "upper_char c =
     (let n = (of_char c :: nat) in if 97 \<le> n \<and> n \<le> 122 then char_of (n - 32) else c)"

definition lower :: "string \<Rightarrow> string" where
  "lower s = map lower_char s"

definition upper :: "string \<Rightarrow> string" where
  "upper s = map upper_char s"

definition capitalize :: "string \<Rightarrow> string" where
  "capitalize s = (case s of [] \<Rightarrow> [] | c # cs \<Rightarrow> upper_char c # map lower_char cs)"

subsection \<open>Paths (pathlib, POSIX flavour)\<close>

text \<open>
  The components of a path: the pieces between slashes, without the empty ones and
  the single dots that pathlib drops when it parses. The root of an absolute path
  is never the name of a path, so it is kept apart.
\<close>

definition path_components :: "path \<Rightarrow> string list" where
  "path_components p = filter (\<lambda>c. c \<noteq> [] \<and> c \<noteq> ''.'') (str_split ''/'' p)"

definition is_absolute :: "path \<Rightarrow> bool" where
  "is_absolute p = prefix ''/'' p"

text \<open>\<open>Path(p).name\<close>: the last component, empty when there is none.\<close>

definition components_name :: "string list \<Rightarrow> string" where
  "components_name cs = (if cs = [] then [] else last cs)"

text \<open>\<open>name.rfind('.')\<close>: the index of the last dot (\<open>None\<close> for Python's -1).\<close>

definition rfind :: "char \<Rightarrow> string \<Rightarrow> nat option" where
  "rfind c s =
     (if c \<in> set s then Some (length s - 1 - length (takeWhile (\<lambda>x. x \<noteq> c) (rev s)))
      else None)"

text \<open>
  \<open>stem\<close> of a name: the name up to its last dot, when that dot is neither the first
  nor the last character; the whole name otherwise.
\<close>

definition name_stem :: "string \<Rightarrow> string" where
  "name_stem name =
     (case rfind CHR ''.'' name of
        None \<Rightarrow> name
      | Some i \<Rightarrow> if 0 < i \<and> i < length name - 1 then take i name else name)"

definition path_stem :: "path \<Rightarrow> string" where
  "path_stem p = name_stem (components_name (path_components p))"

text \<open>
  \<open>Path(p).relative_to(base)\<close> for a relative base: the components of \<open>p\<close> after
  those of \<open>base\<close>; \<open>ValueError\<close> when \<open>p\<close> does not start with them.
\<close>

definition relative_to :: "path \<Rightarrow> path \<Rightarrow> py_error + string list" where
  "relative_to p base =
     (if is_absolute p = is_absolute base \<and> prefix (path_components base) (path_components p)
      then Inr (drop (length (path_components base)) (path_components p))
      else Inl (ValueError p))"

subsection \<open>Constants of the script\<close>

definition HTMLDIR :: path where "HTMLDIR = ''html''"
definition TAGDIR :: path where "TAGDIR = ''tags''"
definition POSTDIR :: path where "POSTDIR = ''posts''"
definition STATICDIR :: path where "STATICDIR = ''static''"
definition TEMPLATEDIR :: path where "TEMPLATEDIR = ''templates''"

section \<open>Tag names\<close>

text \<open>
  \<open>Tag.name\<close> and \<open>Tag.longname\<close> are functions of the tag's path alone:
  \<^verbatim>\<open>
    def name(self):
        return str(self.path.relative_to(TAGDIR).stem.split("(")[0].strip())
    def longname(self):
        stem = self.path.relative_to(TAGDIR).stem
        if not "(" in stem:
            return self.name()
        return str(stem.split("(")[1].split(")")[0].strip())
  \<close>
\<close>

definition Tag_stem :: "path \<Rightarrow> py_error + string" where
  "Tag_stem p =
     (case relative_to p TAGDIR of
        Inl e \<Rightarrow> Inl e
      | Inr cs \<Rightarrow> Inr (name_stem (components_name cs)))"

definition Tag_name :: "path \<Rightarrow> py_error + string" where
  "Tag_name p =
     (case Tag_stem p of
        Inl e \<Rightarrow> Inl e
      | Inr stem \<Rightarrow>
          (case py_index (str_split ''('' stem) 0 of
             Inl e \<Rightarrow> Inl e
           | Inr s \<Rightarrow> Inr (strip s)))"

definition Tag_longname :: "path \<Rightarrow> py_error + string" where
  "Tag_longname p =
     (case Tag_stem p of
        Inl e \<Rightarrow> Inl e
      | Inr stem \<Rightarrow>
          if CHR ''('' \<notin> set stem then Tag_name p
          else (case py_index (str_split ''('' stem) 1 of
                  Inl e \<Rightarrow> Inl e
                | Inr s \<Rightarrow>
                    (case py_index (str_split '')'' s) 0 of
                       Inl e \<Rightarrow> Inl e
                     | Inr l \<Rightarrow> Inr (strip l))))"

lemma str_split_not_Nil: "str_split sep s \<noteq> []"
  by (induction sep s rule: str_split.induct) (auto split: list.splits)


lemma str_split_first:
  assumes "sep \<noteq> []" and "\<forall>i<length a. \<not> prefix sep (drop i (a @ sep @ b))"
  shows "str_split sep (a @ sep @ b) = a # str_split sep b"
  using assms
proof (induction a)
  case Nil
  then obtain x xs where "sep @ b = x # xs" by (cases "sep @ b") auto
  with Nil show ?case by (metis append_Nil append_eq_conv_conj prefixI str_split.simps(2))
next
  case (Cons x a)
  have np: "\<not> prefix sep (x # a @ sep @ b)" using Cons.prems(2) by force
  have "\<forall>i<length a. \<not> prefix sep (drop i (a @ sep @ b))"
  proof (intro allI impI)
    fix i assume "i < length a"
    then have "Suc i < length (x # a)" by simp
    with Cons.prems(2) have "\<not> prefix sep (drop (Suc i) ((x # a) @ sep @ b))" by blast
    then show "\<not> prefix sep (drop i (a @ sep @ b))" by simp
  qed
  with Cons.IH Cons.prems(1) have "str_split sep (a @ sep @ b) = a # str_split sep b" by blast
  with np show ?case by simp
qed

lemma str_split_none:
  assumes "\<forall>i<length a. \<not> prefix sep (drop i a)"
  shows "str_split sep a = [a]"
  using assms
proof (induction a)
  case Nil
  then show ?case by simp
next
  case (Cons x a)
  have np: "\<not> prefix sep (x # a)" using Cons.prems by force
  have "\<forall>i<length a. \<not> prefix sep (drop i a)"
  proof (intro allI impI)
    fix i assume "i < length a"
    then have "Suc i < length (x # a)" by simp
    with Cons.prems have "\<not> prefix sep (drop (Suc i) (x # a))" by blast
    then show "\<not> prefix sep (drop i a)" by simp
  qed
  with Cons.IH have "str_split sep a = [a]" by blast
  with np show ?case by simp
qed

lemma char_no_occ:
  assumes "c \<notin> set a"
  shows "\<forall>i<length a. \<not> prefix [c] (drop i (a @ r))"
proof (intro allI impI)
  fix i assume i: "i < length a"
  then have "drop i (a @ r) = (a ! i) # drop (Suc i) (a @ r)"
    by (simp add: Cons_nth_drop_Suc nth_append)
  moreover have "a ! i \<noteq> c" using assms i by (metis nth_mem)
  ultimately show "\<not> prefix [c] (drop i (a @ r))" by simp
qed

lemma str_split_char_first:
  "c \<notin> set a \<Longrightarrow> str_split [c] (a @ c # b) = a # str_split [c] b"
  using str_split_first [of "[c]" a b] char_no_occ [of c a "c # b"] by simp

lemma str_split_char_none:
  "c \<notin> set a \<Longrightarrow> str_split [c] a = [a]"
  using str_split_none [of a "[c]"] char_no_occ [of c a "[]"] by simp

lemma str_split_char_hd:
  "hd (str_split [c] s) = takeWhile (\<lambda>x. x \<noteq> c) s"
  by (induction s) (auto split: list.splits simp: str_split_not_Nil)



lemma tag_components:
  assumes "CHR ''/'' \<notin> set b" "b \<noteq> []" "b \<noteq> ''.''"
  shows "path_components (''tags/'' @ b) = [''tags'', b]"
proof -
  have "str_split ''/'' (''tags'' @ CHR ''/'' # b) = ''tags'' # str_split ''/'' b"
    by (rule str_split_char_first) simp
  moreover have "str_split ''/'' b = [b]" using assms(1) by (rule str_split_char_none)
  ultimately show ?thesis using assms(2,3) by (simp add: path_components_def)
qed

lemma Tag_stem_tags:
  assumes "CHR ''/'' \<notin> set b" "b \<noteq> []" "b \<noteq> ''.''"
  shows "Tag_stem (''tags/'' @ b) = Inr (name_stem b)"
proof -
  have "path_components TAGDIR = [''tags'']" by (simp add: TAGDIR_def path_components_def)
  then show ?thesis
    using tag_components [OF assms]
    by (simp add: Tag_stem_def relative_to_def is_absolute_def TAGDIR_def components_name_def)
qed

lemma Tag_name_stem:
  "Tag_stem p = Inr st \<Longrightarrow> Tag_name p = Inr (strip (takeWhile (\<lambda>x. x \<noteq> CHR ''('') st))"
  using str_split_not_Nil [of "''(''" st] str_split_char_hd [of "CHR ''(''" st]
  by (cases "str_split ''('' st") (auto simp: Tag_name_def py_index_def)

lemma Tag_longname_plain:
  "Tag_stem p = Inr st \<Longrightarrow> CHR ''('' \<notin> set st \<Longrightarrow> Tag_longname p = Tag_name p"
  by (simp add: Tag_longname_def)

lemma Tag_longname_paren:
  assumes "Tag_stem p = Inr (pre @ ''('' @ mid @ '')'' @ post)"
    and "CHR ''('' \<notin> set pre" and "CHR ''('' \<notin> set mid" and "CHR '')'' \<notin> set mid"
  shows "Tag_longname p = Inr (strip mid)"
proof -
  let ?rest = "mid @ '')'' @ post"
  have s: "str_split ''('' (pre @ CHR ''('' # ?rest) = pre # str_split ''('' ?rest"
    using assms(2) by (rule str_split_char_first)
  obtain s1 ss where r: "str_split ''('' ?rest = s1 # ss"
    using str_split_not_Nil [of "''(''" ?rest] by (cases "str_split ''('' ?rest") auto
  have "s1 = takeWhile (\<lambda>x. x \<noteq> CHR ''('') ?rest"
    using str_split_char_hd [of "CHR ''(''" ?rest] r by simp
  then have s1: "s1 = mid @ CHR '')'' # takeWhile (\<lambda>x. x \<noteq> CHR ''('') post"
  proof -
    have "\<And>x. x \<in> set mid \<Longrightarrow> x \<noteq> CHR ''(''" using assms(3) by blast
    then have "takeWhile (\<lambda>x. x \<noteq> CHR ''('') (mid @ CHR '')'' # post)
        = mid @ takeWhile (\<lambda>x. x \<noteq> CHR ''('') (CHR '')'' # post)"
      by (rule takeWhile_append2)
    with \<open>s1 = _\<close> show ?thesis by simp
  qed
  have "str_split '')'' s1 = mid # str_split '')'' (takeWhile (\<lambda>x. x \<noteq> CHR ''('') post)"
    unfolding s1 using assms(4) by (rule str_split_char_first)
  with s r assms(1) show ?thesis
    by (simp add: Tag_longname_def py_index_def)
qed

lemma takeWhile_neq_all: "c \<notin> set a \<Longrightarrow> takeWhile (\<lambda>x. x \<noteq> c) a = a"
  by (induction a) auto

lemma takeWhile_neq_stop: "c \<notin> set a \<Longrightarrow> takeWhile (\<lambda>x. x \<noteq> c) (a @ c # r) = a"
  by (induction a) auto

text \<open>
  What the two methods compute for a directory \<open>tags/b\<close>: both read the \<^emph>\<open>stem\<close>
  of \<open>b\<close>, that is \<open>b\<close> without what follows its last dot.
\<close>

lemma Tag_names_of_stem:
  assumes "CHR ''/'' \<notin> set b" and "b \<noteq> []" and "b \<noteq> ''.''"
  shows "Tag_name (''tags/'' @ b) = Inr (strip (takeWhile (\<lambda>x. x \<noteq> CHR ''('') (name_stem b)))"
    and "CHR ''('' \<notin> set (name_stem b) \<Longrightarrow>
           Tag_longname (''tags/'' @ b) = Inr (strip (name_stem b))"
    and "name_stem b = pre @ ''('' @ mid @ '')'' @ post \<Longrightarrow> CHR ''('' \<notin> set pre \<Longrightarrow>
           CHR ''('' \<notin> set mid \<Longrightarrow> CHR '')'' \<notin> set mid \<Longrightarrow>
           Tag_longname (''tags/'' @ b) = Inr (strip mid)"
proof -
  let ?p = "''tags/'' @ b"
  have st: "Tag_stem ?p = Inr (name_stem b)" using assms by (rule Tag_stem_tags)
  show n: "Tag_name ?p = Inr (strip (takeWhile (\<lambda>x. x \<noteq> CHR ''('') (name_stem b)))"
    using st by (rule Tag_name_stem)
  show "Tag_longname ?p = Inr (strip (name_stem b))" if "CHR ''('' \<notin> set (name_stem b)"
    using Tag_longname_plain [OF st that] n takeWhile_neq_all [OF that] by simp
  show "Tag_longname ?p = Inr (strip mid)"
    if "name_stem b = pre @ ''('' @ mid @ '')'' @ post" "CHR ''('' \<notin> set pre"
      "CHR ''('' \<notin> set mid" "CHR '')'' \<notin> set mid"
    using st that by (intro Tag_longname_paren [where post = post]) simp_all
qed

text \<open>
  C4. The claim reads the names from the directory's base name: the short name is the
  base name up to its first opening parenthesis, the long name the parenthesised part.
  The two examples of the claim come out as it says (\<open>linux (desktop linux)\<close>,
  \<open>rust\<close>), and so does a name with whitespace that is not ASCII. But the code takes
  \<open>Path.stem\<close> of the directory, which cuts the base name at its last dot before any
  parenthesis is looked for. So \<open>tags/v1.0 (beta)\<close> has the short name \<open>v1\<close> and the
  long name \<open>v1\<close> (not \<open>v1.0\<close> and \<open>beta\<close>); the directories \<open>tags/v1.0\<close> and
  \<open>tags/v1.1\<close> are both named \<open>v1\<close>; and \<open>tags/web (e.g. html)\<close> has the long name
  \<open>e.g\<close> (not \<open>e.g. html\<close>).
\<close>

theorem Tag_names_dotted_folder:
  "Tag_name ''tags/linux (desktop linux)'' = Inr ''linux'' \<and>
   Tag_longname ''tags/linux (desktop linux)'' = Inr ''desktop linux'' \<and>
   Tag_name ''tags/rust'' = Inr ''rust'' \<and>
   Tag_longname ''tags/rust'' = Inr ''rust'' \<and>
   Tag_name (''tags/rust'' @ map char_of [0xC2, 0xA0 :: nat]) = Inr ''rust'' \<and>
   Tag_name ''tags/v1.0 (beta)'' = Inr ''v1'' \<and>
   Tag_longname ''tags/v1.0 (beta)'' = Inr ''v1'' \<and>
   Tag_name ''tags/v1.0'' = Inr ''v1'' \<and>
   Tag_name ''tags/v1.1'' = Inr ''v1'' \<and>
   Tag_name ''tags/web (e.g. html)'' = Inr ''web'' \<and>
   Tag_longname ''tags/web (e.g. html)'' = Inr ''e.g''"
  by code_simp

section \<open>Rewriting Markdown links\<close>

text \<open>
  \<^verbatim>\<open>
    def replace_markdown_links(content):
        parts = content.split("](")
        for i, part in enumerate(parts[1:], start=1):
            smallparts = part.split(")")
            if smallparts[0].startswith("http://") or smallparts[0].startswith("https://") \
                    or smallparts[0].startswith("static"):
                continue
            smallparts[0] = f"/{Path(smallparts[0]).stem}.html"
            parts[i] = ")".join(smallparts)
        content = "](".join(parts)
        return content
  \<close>
  One turn of the loop, on the list \<open>parts\<close> as it stands, the index \<open>i\<close> and the
  part read from the slice taken before the loop:
\<close>

definition replace_step :: "string list \<Rightarrow> nat \<times> string \<Rightarrow> string list" where
  "replace_step parts ip =
     (case ip of (i, part) \<Rightarrow>
        (case str_split '')'' part of
           [] \<Rightarrow> parts
         | target # rest \<Rightarrow>
             if prefix ''http://'' target \<or> prefix ''https://'' target \<or> prefix ''static'' target
             then parts
             else parts[i := str_join '')'' ((''/'' @ path_stem target @ ''.html'') # rest)]))"

fun replace_loop :: "string list \<Rightarrow> (nat \<times> string) list \<Rightarrow> string list" where
  "replace_loop parts [] = parts"
| "replace_loop parts (ip # ips) = replace_loop (replace_step parts ip) ips"

definition replace_markdown_links :: "string \<Rightarrow> string" where
  "replace_markdown_links content =
     (let parts = str_split '']('' content
      in str_join '']('' (replace_loop parts (enumerate 1 (drop 1 parts))))"

text \<open>
  The claim's words: what a link target becomes, and a text made of a lead and of
  links \<open>](target)\<close>, each followed by some text.
\<close>

definition rewritten_target :: "string \<Rightarrow> string" where
  "rewritten_target t =
     (if prefix ''http://'' t \<or> prefix ''https://'' t \<or> prefix ''static'' t then t
      else ''/'' @ path_stem t @ ''.html'')"

fun links_text :: "(string \<times> string) list \<Rightarrow> string" where
  "links_text [] = []"
| "links_text ((t, r) # ls) = '']('' @ t @ '')'' @ r @ links_text ls"


lemma str_join_Cons: "ps \<noteq> [] \<Longrightarrow> str_join sep (p # ps) = p @ sep @ str_join sep ps"
  by (cases ps) auto

lemma str_join_Cons_Cons: "str_join sep ((x # p) # ps) = x # str_join sep (p # ps)"
  by (cases ps) auto

lemma str_join_split: "sep \<noteq> [] \<Longrightarrow> str_join sep (str_split sep s) = s"
proof (induction sep s rule: str_split.induct)
  case (1 sep)
  then show ?case by simp
next
  case (2 sep x xs)
  show ?case
  proof (cases "prefix sep (x # xs)")
    case True
    then have "sep @ drop (length sep) (x # xs) = x # xs"
      by (metis append_eq_conv_conj prefixE)
    with 2 True show ?thesis by (simp add: str_join_Cons str_split_not_Nil)
  next
    case False
    obtain p ps where s: "str_split sep xs = p # ps"
      using str_split_not_Nil [of sep xs] by (cases "str_split sep xs") auto
    with 2 False show ?thesis by (simp add: str_join_Cons_Cons)
  qed
qed

definition link_part :: "string \<times> string \<Rightarrow> string" where
  "link_part tr = (case tr of (t, r) \<Rightarrow> t @ '')'' @ r)"

definition rewritten_part :: "string \<times> string \<Rightarrow> string" where
  "rewritten_part tr = (case tr of (t, r) \<Rightarrow> rewritten_target t @ '')'' @ r)"

lemma replace_step_part:
  assumes "CHR '')'' \<notin> set t"
  shows "replace_step parts (i, link_part (t, r)) = parts[i := rewritten_part (t, r)]
       \<or> (replace_step parts (i, link_part (t, r)) = parts \<and> rewritten_part (t, r) = link_part (t, r))"
proof -
  have s: "str_split '')'' (t @ CHR '')'' # r) = t # str_split '')'' r"
    using assms(1) by (rule str_split_char_first)
  have j: "str_join '')'' (x # str_split '')'' r) = x @ '')'' @ r" for x
    using str_join_split [of "'')''" r] by (simp add: str_join_Cons str_split_not_Nil)
  show ?thesis
    using s j by (auto simp: replace_step_def rewritten_target_def link_part_def rewritten_part_def)
qed

lemma replace_step_at:
  assumes "CHR '')'' \<notin> set t"
  shows "replace_step (pre @ link_part (t, r) # post) (length pre, link_part (t, r))
           = pre @ rewritten_part (t, r) # post"
  using replace_step_part [OF assms, of "pre @ link_part (t, r) # post" "length pre" r]
  by auto

lemma replace_loop_parts:
  assumes "\<forall>(t, r) \<in> set ls. CHR '')'' \<notin> set t"
  shows "replace_loop (pre @ map link_part ls) (enumerate (length pre) (map link_part ls))
           = pre @ map rewritten_part ls"
  using assms
proof (induction ls arbitrary: pre)
  case Nil
  then show ?case by simp
next
  case (Cons tr ls)
  obtain t r where tr: "tr = (t, r)" by (cases tr)
  have t: "CHR '')'' \<notin> set t" using Cons.prems tr by auto
  have "replace_loop ((pre @ [rewritten_part tr]) @ map link_part ls)
          (enumerate (length (pre @ [rewritten_part tr])) (map link_part ls))
        = (pre @ [rewritten_part tr]) @ map rewritten_part ls"
    using Cons.prems by (intro Cons.IH) auto
  then show ?case
    using replace_step_at [OF t, of pre r "map link_part ls"] tr by simp
qed

lemma prefix_drop_sublist:
  assumes "prefix xs (drop i a)"
  shows "sublist xs a"
proof -
  from assms obtain zs where "drop i a = xs @ zs" by (auto simp: prefix_def)
  then have "a = take i a @ xs @ zs" by (metis append_take_drop_id)
  then show ?thesis unfolding sublist_def by blast
qed

lemma no_open_drop:
  assumes "\<not> sublist '']('' a" and "i < length a"
  shows "\<not> prefix '']('' (drop i (a @ '']('' @ b))"
proof
  assume p: "prefix '']('' (drop i (a @ '']('' @ b))"
  have d: "drop i (a @ '']('' @ b) = drop i a @ '']('' @ b" using assms(2) by simp
  obtain x xs where xs: "drop i a = x # xs"
    using assms(2) by (cases "drop i a") auto
  show False
  proof (cases xs)
    case Nil
    from p have "prefix '']('' ([x] @ '']('' @ b)" unfolding d xs Nil .
    then show False by simp
  next
    case (Cons y ys)
    from p have "prefix '']('' ((x # y # ys) @ '']('' @ b)" unfolding d xs Cons .
    then have "prefix '']('' (drop i a)" unfolding xs Cons by simp
    then have "sublist '']('' a" by (rule prefix_drop_sublist)
    with assms(1) show False by simp
  qed
qed

lemma no_open_drop_end:
  assumes "\<not> sublist '']('' a" and "i < length a"
  shows "\<not> prefix '']('' (drop i a)"
proof
  assume "prefix '']('' (drop i a)"
  then have "sublist '']('' a" by (rule prefix_drop_sublist)
  with assms(1) show False by simp
qed

lemma sublist_open_Cons:
  "sublist '']('' (x # s) \<longleftrightarrow> prefix '']('' (x # s) \<or> sublist '']('' s"
  by (rule sublist_code(3))

lemma no_open_link_part:
  "sublist '']('' (link_part (t, r)) \<longleftrightarrow> sublist '']('' t \<or> sublist '']('' r"
proof (induction t)
  case Nil
  show ?case by (simp add: link_part_def sublist_open_Cons)
next
  case (Cons x t)
  have "prefix '']('' (x # t @ CHR '')'' # r) \<longleftrightarrow> prefix '']('' (x # t)"
    by (cases t) auto
  then have "sublist '']('' (x # (t @ CHR '')'' # r)) \<longleftrightarrow> sublist '']('' (x # t) \<or> sublist '']('' r"
    using Cons.IH unfolding sublist_open_Cons [of x] by (auto simp: link_part_def)
  then show ?case by (simp add: link_part_def)
qed

lemma str_split_links:
  assumes "\<not> sublist '']('' p0"
    and "\<forall>(t, r) \<in> set ls. \<not> sublist '']('' t \<and> \<not> sublist '']('' r"
  shows "str_split '']('' (p0 @ links_text ls) = p0 # map link_part ls"
  using assms
proof (induction ls arbitrary: p0)
  case Nil
  have "\<forall>i<length p0. \<not> prefix '']('' (drop i p0)"
    using no_open_drop_end [OF Nil.prems(1)] by blast
  then have "str_split '']('' p0 = [p0]" by (rule str_split_none)
  then show ?case by simp
next
  case (Cons tr ls)
  obtain t r where tr: "tr = (t, r)" by (cases tr)
  let ?b = "link_part (t, r) @ links_text ls"
  have nz: "'']('' \<noteq> ([] :: string)" by simp
  have occ: "\<forall>i<length p0. \<not> prefix '']('' (drop i (p0 @ '']('' @ ?b))"
    using no_open_drop [OF Cons.prems(1)] by blast
  have first: "str_split '']('' (p0 @ '']('' @ ?b) = p0 # str_split '']('' ?b"
    using nz occ by (rule str_split_first)
  have nl: "\<not> sublist '']('' (link_part (t, r))"
    using Cons.prems(2) tr by (simp add: no_open_link_part)
  have ls: "\<forall>(t, r) \<in> set ls. \<not> sublist '']('' t \<and> \<not> sublist '']('' r"
    using Cons.prems(2) by simp
  have rest: "str_split '']('' ?b = link_part (t, r) # map link_part ls"
    using nl ls by (rule Cons.IH)
  have eq: "p0 @ links_text (tr # ls) = p0 @ '']('' @ ?b"
    unfolding tr by (simp add: link_part_def)
  show ?case unfolding eq first rest by (simp add: tr)
qed

lemma str_join_links:
  "str_join '']('' (p0 # map rewritten_part ls)
     = p0 @ links_text (map (\<lambda>(t, r). (rewritten_target t, r)) ls)"
proof (induction ls arbitrary: p0)
  case Nil
  show ?case by simp
next
  case (Cons tr ls)
  obtain t r where tr: "tr = (t, r)" by (cases tr)
  show ?case using Cons.IH [of "rewritten_part (t, r)"] tr
    by (simp add: rewritten_part_def)
qed


text \<open>
  C3. In a content made of a lead and of links \<open>](target)\<close> with the text that
  follows each (no target holds a closing parenthesis, and \<open>](\<close> stands nowhere
  but at the head of a link), the pass rewrites every target to \<open>/<stem>.html\<close>,
  except the targets that start with \<open>http://\<close>, \<open>https://\<close> or \<open>static\<close>, and
  changes nothing else. So \<open>[x](other-post)\<close> becomes \<open>[x](/other-post.html)\<close>
  and \<open>[x](https://example.com)\<close> stays.
\<close>

theorem replace_markdown_links_targets:
  assumes "\<not> sublist '']('' lead"
    and "\<forall>(t, r) \<in> set ls. CHR '')'' \<notin> set t \<and> \<not> sublist '']('' t \<and> \<not> sublist '']('' r"
  shows "replace_markdown_links (lead @ links_text ls)
           = lead @ links_text (map (\<lambda>(t, r). (rewritten_target t, r)) ls) \<and>
         rewritten_target ''other-post'' = ''/other-post.html'' \<and>
         rewritten_target ''https://example.com'' = ''https://example.com'' \<and>
         replace_markdown_links ''[x](other-post)'' = ''[x](/other-post.html)'' \<and>
         replace_markdown_links ''[x](https://example.com)'' = ''[x](https://example.com)''"
proof -
  have ls1: "\<forall>(t, r) \<in> set ls. \<not> sublist '']('' t \<and> \<not> sublist '']('' r"
    using assms(2) by auto
  have ls2: "\<forall>(t, r) \<in> set ls. CHR '')'' \<notin> set t"
    using assms(2) by auto
  have parts: "str_split '']('' (lead @ links_text ls) = lead # map link_part ls"
    using assms(1) ls1 by (rule str_split_links)
  have "replace_loop ([lead] @ map link_part ls) (enumerate (length [lead]) (map link_part ls))
          = [lead] @ map rewritten_part ls"
    using ls2 by (rule replace_loop_parts)
  then have loop: "replace_loop (lead # map link_part ls) (enumerate 1 (map link_part ls))
          = lead # map rewritten_part ls"
    by simp
  have general: "replace_markdown_links (lead @ links_text ls)
           = lead @ links_text (map (\<lambda>(t, r). (rewritten_target t, r)) ls)"
    unfolding replace_markdown_links_def parts Let_def
    using loop str_join_links [of lead ls] by simp
  have ex: "rewritten_target ''other-post'' = ''/other-post.html''"
    "rewritten_target ''https://example.com'' = ''https://example.com''"
    "replace_markdown_links ''[x](other-post)'' = ''[x](/other-post.html)''"
    "replace_markdown_links ''[x](https://example.com)'' = ''[x](https://example.com)''"
    by code_simp+
  from general ex show ?thesis by simp
qed

theorem replace_markdown_links_targets_witness:
  "\<not> sublist '']('' ''see [a'' \<and>
   replace_markdown_links ''see [a](notes/b.md) or [c](static/d.png) (e)''
     = ''see [a](/b.html) or [c](static/d.png) (e)''"
proof -
  have l: "\<not> sublist '']('' ''see [a''" by code_simp
  have ls: "\<forall>(t, r) \<in> set [(''notes/b.md'', '' or [c''), (''static/d.png'', '' (e)'')].
              CHR '')'' \<notin> set t \<and> \<not> sublist '']('' t \<and> \<not> sublist '']('' r"
    by code_simp
  have t: "rewritten_target ''notes/b.md'' = ''/b.html''"
    "rewritten_target ''static/d.png'' = ''static/d.png''"
    by code_simp+
  have "replace_markdown_links
          (''see [a'' @ links_text [(''notes/b.md'', '' or [c''), (''static/d.png'', '' (e)'')])
        = ''see [a'' @ links_text (map (\<lambda>(t, r). (rewritten_target t, r))
            [(''notes/b.md'', '' or [c''), (''static/d.png'', '' (e)'')])"
    using replace_markdown_links_targets [OF l ls] by (rule conjunct1)
  then show ?thesis using l by (simp add: t)
qed

section \<open>The outside world and the state of the process\<close>

text \<open>
  What the script reads from outside is gathered in an environment \<open>env\<close>: the file
  system as it is when the build starts, the answers of git, and the external programs
  and libraries (JSON, pandoc, nbconvert, Jinja), which are functions the model does
  not look into. What the process changes is the state \<open>world\<close>: the two class-level
  registries, the caches of the memoised methods, the clock and the random tokens
  already drawn, and the effects on the file system and the terminal, in order.
\<close>

datatype fs_entry = File string | Dir

text \<open>
  A parsed notebook. A JSON value inside an output's \<open>data\<close> is a string or anything
  else; \<open>source\<close> is a list of strings, as nbformat writes it and as
  \<open>MarkdownPost.readjson\<close> builds it; \<open>outputs\<close> and \<open>data\<close> may be absent
  (\<open>dict.get\<close> returns \<open>None\<close>).
\<close>

datatype jval = JStr string | JOther string

record cell_output =
  out_data :: "(string \<times> jval) list option"

record cell =
  cell_type :: string
  source :: "string list"
  outputs :: "cell_output list option"

record notebook =
  cells :: "cell list"
  nb_rest :: string

datatype post_cls = MarkdownPost | NotebookPost | HtmlPost

text \<open>
  A \<open>Post\<close> object. The tags are references to \<open>Tag\<close> objects; an object of either
  class is identified by its key in the registry of its class, so a reference is that key.
  \<open>post_json = None\<close> is an object without the attribute \<open>json\<close>.
\<close>

record post =
  cls :: post_cls
  post_path :: path
  post_tags :: "path list"
  post_lines :: "string list"
  post_json :: "notebook option"
  mathjax :: bool
  plotly_plots :: "(string \<times> string) list"
  vega_plots :: "(string \<times> string) list"

record tag =
  tag_path :: path
  tag_posts :: "path list"

record index =
  index_posts :: "path list"
  index_tags :: "path list"

datatype obj = PostObj path | TagObj path | IndexObj

text \<open>The methods under \<open>@cache()\<close>, and the values they return.\<close>

datatype accessor =
    Priority | Author | Content | Name | Uri | Utcpublished | Utcmodified
  | Summary | Textsummary | Title | Num_posts | Longname

datatype val = VStr string | VTime int | VNum real | VInt int

fun str_of :: "val \<Rightarrow> string" where
  "str_of (VStr s) = s"
| "str_of _ = []"

fun time_of :: "val \<Rightarrow> int" where
  "time_of (VTime t) = t"
| "time_of _ = 0"

fun int_of :: "val \<Rightarrow> int" where
  "int_of (VInt n) = n"
| "int_of _ = 0"

text \<open>
  The keyword arguments of a template rendering: the page, whether the index is passed,
  the tag, the neighbours and the newest post, the three flags of a notebook post
  (\<open>mathjax\<close>, \<open>vega\<close>, \<open>plotly\<close>), the pages of the sitemap and the date of
  the feed. An argument that is not passed, or is \<open>None\<close>, is \<open>None\<close> here.
\<close>

record render_ctx =
  page :: "obj option"
  with_index :: bool
  with_tag :: "path option"
  next_post :: "path option"
  previous_post :: "path option"
  newest_post :: "path option"
  feature_flags :: "(bool \<times> bool \<times> bool) option"
  pages :: "obj list"
  date :: "int option"

datatype template = Template string

datatype effect =
    Rendered template render_ctx
  | Written path string
  | MadeDirs path
  | Linked path path
  | Printed string

record env =
  fs :: "path \<Rightarrow> fs_entry option"
  glob :: "path \<Rightarrow> path list"
  resolve :: "path \<Rightarrow> py_error + path"
  json_load :: "string \<Rightarrow> py_error + notebook"
  json_dumps :: "jval \<Rightarrow> string"
  notebook_dumps :: "notebook \<Rightarrow> string"
  git_author :: "path \<Rightarrow> py_error + string"
  git_added :: "path \<Rightarrow> py_error + string"
  git_modified :: "path \<Rightarrow> py_error + string"
  strptime_fields :: "string \<Rightarrow> (int \<times> int) option"
  time_at :: "nat \<Rightarrow> int"
  token_at :: "nat \<Rightarrow> string"
  pandoc :: "string \<Rightarrow> py_error + string"
  nbconvert :: "string \<Rightarrow> py_error + string"
  jinja :: "string \<Rightarrow> render_ctx \<Rightarrow> py_error + string"
  jinja_compile :: "string \<Rightarrow> py_error option"
  patch_html :: "post \<Rightarrow> string \<Rightarrow> py_error + string"
  run_ln :: "path \<Rightarrow> path \<Rightarrow> py_error option"
  can_write :: "path \<Rightarrow> bool"

record world =
  posts_reg :: "path \<Rightarrow> post option"
  tags_reg :: "path \<Rightarrow> tag option"
  memo :: "accessor \<times> obj \<Rightarrow> val option"
  computed :: "(accessor \<times> obj) list"
  clock_reads :: nat
  tokens_drawn :: nat
  effects :: "effect list"

definition start :: world where
  "start = \<lparr>posts_reg = Map.empty, tags_reg = Map.empty, memo = Map.empty, computed = [],
             clock_reads = 0, tokens_drawn = 0, effects = []\<rparr>"

type_synonym 'a run = "world \<Rightarrow> (py_error + 'a) \<times> world"

text \<open>\<open>datetime.utcnow()\<close>: the next reading of the clock.\<close>

definition utcnow :: "env \<Rightarrow> world \<Rightarrow> int \<times> world" where
  "utcnow e w = (time_at e (clock_reads w), w\<lparr>clock_reads := Suc (clock_reads w)\<rparr>)"

text \<open>\<open>secrets.token_hex(8)\<close>: the next random token.\<close>

definition token_hex :: "env \<Rightarrow> world \<Rightarrow> string \<times> world" where
  "token_hex e w = (token_at e (tokens_drawn w), w\<lparr>tokens_drawn := Suc (tokens_drawn w)\<rparr>)"

text \<open>\<open>open(path, "r").read()\<close>.\<close>

definition read_file :: "env \<Rightarrow> path \<Rightarrow> py_error + string" where
  "read_file e p =
     (case fs e p of
        None \<Rightarrow> Inl (FileNotFoundError p)
      | Some Dir \<Rightarrow> Inl (IsADirectoryError p)
      | Some (File text) \<Rightarrow> Inr text)"

text \<open>\<open>a / b\<close> of two relative paths, in pathlib's normal form.\<close>

definition path_join :: "path \<Rightarrow> path \<Rightarrow> path" where
  "path_join a b = str_join ''/'' (path_components a @ path_components b)"

subsection \<open>The cache decorator\<close>

text \<open>
  \<^verbatim>\<open>cache = partial(lru_cache, None, True)\<close>: an unbounded cache per decorated
  function, keyed by the arguments, here \<open>self\<close> alone. A call whose key is in the
  cache returns the stored value and runs nothing; otherwise the body runs, and its
  value is stored unless it raised.
\<close>

definition cached :: "accessor \<Rightarrow> obj \<Rightarrow> val run \<Rightarrow> val run" where
  "cached a self body w =
     (case memo w (a, self) of
        Some v \<Rightarrow> (Inr v, w)
      | None \<Rightarrow>
          (case body w of
             (Inl err, w') \<Rightarrow> (Inl err, w')
           | (Inr v, w') \<Rightarrow> (Inr v, w'\<lparr>memo := (memo w')((a, self) \<mapsto> v)\<rparr>)))"

text \<open>
  \<open>computed\<close> is a ghost variable, the only part of the state that the script does
  not have: the log of the bodies of memoised methods that have run and returned a
  value, in order. Every body of a memoised method is written with \<open>computes\<close>, so
  each of its runs that returns leaves an entry, whoever calls it.
\<close>

definition computes :: "accessor \<Rightarrow> obj \<Rightarrow> val run \<Rightarrow> val run" where
  "computes a self f w =
     (case f w of
        (Inl err, w') \<Rightarrow> (Inl err, w')
      | (Inr v, w') \<Rightarrow> (Inr v, w'\<lparr>computed := computed w' @ [(a, self)]\<rparr>))"

definition get_post :: "world \<Rightarrow> path \<Rightarrow> py_error + post" where
  "get_post w p = (case posts_reg w p of None \<Rightarrow> Inl (AttributeError p) | Some x \<Rightarrow> Inr x)"

definition get_tag :: "world \<Rightarrow> path \<Rightarrow> py_error + tag" where
  "get_tag w t = (case tags_reg w t of None \<Rightarrow> Inl (AttributeError t) | Some x \<Rightarrow> Inr x)"

section \<open>Post: the memoised methods\<close>

definition newline :: string where
  "newline = [CHR 0x0A]"







text \<open>
  \<^verbatim>\<open>datetime.strptime(s, "%a, %d %b %Y %H:%M:%S %z")\<close>. The format opens with the
  abbreviated weekday (in English, as in the C locale) and a comma, matched without
  regard to case; a string that does
  not start so raises \<open>ValueError\<close> (\<open>None\<close>), the empty string among them. What the
  remaining directives read is left to the environment: the local time in seconds and
  the offset to UTC.
\<close>

definition weekday_abbrs :: "string list" where
  "weekday_abbrs = [''mon'', ''tue'', ''wed'', ''thu'', ''fri'', ''sat'', ''sun'']"

definition strptime :: "env \<Rightarrow> string \<Rightarrow> (int \<times> int) option" where
  "strptime e s =
     (if list_ex (\<lambda>d. prefix (d @ '','') (lower s)) weekday_abbrs then strptime_fields e s
      else None)"

text \<open>
  The body shared by \<open>utcpublished\<close> and \<open>utcmodified\<close>, from the output of git on:
  \<^verbatim>\<open>
        try:
            datetimestr = subprocess.check_output([...]).decode().strip()
            localdatetime = datetime.strptime(datetimestr, "%a, %d %b %Y %H:%M:%S %z")
            ...
            return datetime.strptime((localdatetime-utcoffset).strftime(...), ...)
        except ValueError:
            return datetime.utcnow()
  \<close>
\<close>

definition utc_of_log :: "env \<Rightarrow> string \<Rightarrow> world \<Rightarrow> val \<times> world" where
  "utc_of_log e out w =
     (case strptime e (strip out) of
        Some (localtime, utcoffset) \<Rightarrow> (VTime (localtime - utcoffset), w)
      | None \<Rightarrow> (case utcnow e w of (t, w') \<Rightarrow> (VTime t, w')))"


text \<open>
  \<^verbatim>\<open>
    def author(self):
        author = subprocess.check_output(['git', 'log', '--pretty=format:%an%x09', self.path]
                   ).decode().split("\n")[0].strip()
        if not author:
            author = "Anonymous"
        return author.lower().capitalize()
  \<close>
\<close>

definition author_of_log :: "string \<Rightarrow> py_error + string" where
  "author_of_log out =
     (case py_index (str_split newline out) 0 of
        Inl err \<Rightarrow> Inl err
      | Inr first \<Rightarrow>
          (let author = strip first;
               author = (if author = [] then ''Anonymous'' else author)
           in Inr (capitalize (lower author))))"

definition author_body :: "env \<Rightarrow> path \<Rightarrow> val run" where
  "author_body e p =
     computes Author (PostObj p) (\<lambda>w.
     (case get_post w p of
        Inl err \<Rightarrow> (Inl err, w)
      | Inr self \<Rightarrow>
          (case git_author e (post_path self) of
             Inl err \<Rightarrow> (Inl err, w)
           | Inr out \<Rightarrow> (map_sum id VStr (author_of_log out), w))))"

definition utcpublished_body :: "env \<Rightarrow> path \<Rightarrow> val run" where
  "utcpublished_body e p =
     computes Utcpublished (PostObj p) (\<lambda>w.
     (case get_post w p of
        Inl err \<Rightarrow> (Inl err, w)
      | Inr self \<Rightarrow>
          (case git_added e (post_path self) of
             Inl err \<Rightarrow> (Inl err, w)
           | Inr out \<Rightarrow> (case utc_of_log e out w of (v, w') \<Rightarrow> (Inr v, w')))))"

definition utcmodified_body :: "env \<Rightarrow> path \<Rightarrow> val run" where
  "utcmodified_body e p =
     computes Utcmodified (PostObj p) (\<lambda>w.
     (case get_post w p of
        Inl err \<Rightarrow> (Inl err, w)
      | Inr self \<Rightarrow>
          (case git_modified e (post_path self) of
             Inl err \<Rightarrow> (Inl err, w)
           | Inr out \<Rightarrow> (case utc_of_log e out w of (v, w') \<Rightarrow> (Inr v, w')))))"

text \<open>\<open>name\<close>: \<^verbatim>\<open>str(self.path.relative_to(POSTDIR).stem)\<close>.\<close>

definition name_body :: "path \<Rightarrow> val run" where
  "name_body p =
     computes Name (PostObj p) (\<lambda>w.
     (case get_post w p of
        Inl err \<Rightarrow> (Inl err, w)
      | Inr self \<Rightarrow>
          (case relative_to (post_path self) POSTDIR of
             Inl err \<Rightarrow> (Inl err, w)
           | Inr cs \<Rightarrow> (Inr (VStr (name_stem (components_name cs))), w))))"

definition Post_name :: "path \<Rightarrow> val run" where
  "Post_name p = cached Name (PostObj p) (name_body p)"

text \<open>\<open>uri\<close>: \<^verbatim>\<open>f"{self.name()}.html"\<close>.\<close>

definition uri_body :: "path \<Rightarrow> val run" where
  "uri_body p =
     computes Uri (PostObj p) (\<lambda>w.
     (case Post_name p w of
        (Inl err, w') \<Rightarrow> (Inl err, w')
      | (Inr n, w') \<Rightarrow> (Inr (VStr (str_of n @ ''.html'')), w')))"









definition Post_author :: "env \<Rightarrow> path \<Rightarrow> val run" where
  "Post_author e p = cached Author (PostObj p) (author_body e p)"


definition Post_uri :: "path \<Rightarrow> val run" where
  "Post_uri p = cached Uri (PostObj p) (uri_body p)"

definition Post_utcpublished :: "env \<Rightarrow> path \<Rightarrow> val run" where
  "Post_utcpublished e p = cached Utcpublished (PostObj p) (utcpublished_body e p)"

definition Post_utcmodified :: "env \<Rightarrow> path \<Rightarrow> val run" where
  "Post_utcmodified e p = cached Utcmodified (PostObj p) (utcmodified_body e p)"



text \<open>An environment with nothing in it, and a state with one Markdown post, for examples.\<close>

definition bare_env :: env where
  "bare_env =
     \<lparr>fs = (\<lambda>p. None), glob = (\<lambda>p. []), resolve = Inr,
      json_load = (\<lambda>s. Inl (ValueError s)), json_dumps = (\<lambda>j. []),
      notebook_dumps = (\<lambda>n. []),
      git_author = (\<lambda>p. Inr []), git_added = (\<lambda>p. Inr []), git_modified = (\<lambda>p. Inr []),
      strptime_fields = (\<lambda>s. None), time_at = (\<lambda>n. 1000 + int n),
      token_at = (\<lambda>n. replicate (Suc n) CHR ''a''),
      pandoc = Inr, nbconvert = Inr, jinja = (\<lambda>s c. Inr s), jinja_compile = (\<lambda>s. None),
      patch_html = (\<lambda>p s. Inr s), run_ln = (\<lambda>a b. None), can_write = (\<lambda>p. True)\<rparr>"

definition hello_post :: post where
  "hello_post =
     \<lparr>cls = MarkdownPost, post_path = ''posts/hello.md'', post_tags = [],
      post_lines = [''# Hello'', ''first words'', [], ''more''], post_json = None,
      mathjax = False, plotly_plots = [], vega_plots = []\<rparr>"

definition hello_world :: world where
  "hello_world = start\<lparr>posts_reg := [''posts/hello.md'' \<mapsto> hello_post]\<rparr>"

text \<open>
  The same environment in a repository that has no commit yet (or in a directory that
  is no repository): every \<open>git log\<close> exits with status 128, so
  \<open>subprocess.check_output\<close> raises \<open>CalledProcessError\<close>.
\<close>

definition no_commits_env :: env where
  "no_commits_env =
     bare_env\<lparr>git_author := (\<lambda>p. Inl (CalledProcessError ''git log'')),
              git_added := (\<lambda>p. Inl (CalledProcessError ''git log'')),
              git_modified := (\<lambda>p. Inl (CalledProcessError ''git log''))\<rparr>"

text \<open>
  When git runs and prints nothing (a file not yet committed, in a repository that has
  commits), the first call of \<open>author\<close> returns \<open>Anonymous\<close> and the first call of
  either timestamp returns the reading of the clock.
\<close>

lemma empty_log_fallbacks:
  assumes "posts_reg w p = Some self"
    and "git_author e (post_path self) = Inr []"
    and "git_added e (post_path self) = Inr []"
    and "git_modified e (post_path self) = Inr []"
    and "memo w (Author, PostObj p) = None"
    and "memo w (Utcpublished, PostObj p) = None"
    and "memo w (Utcmodified, PostObj p) = None"
  shows "fst (Post_author e p w) = Inr (VStr ''Anonymous'') \<and>
         fst (Post_utcpublished e p w) = Inr (VTime (time_at e (clock_reads w))) \<and>
         fst (Post_utcmodified e p w) = Inr (VTime (time_at e (clock_reads w)))"
proof -
  have a: "author_of_log [] = Inr ''Anonymous''" by code_simp
  have s: "strptime e (strip []) = None"
    by (simp add: strptime_def strip_def lstrip_def rstrip_def strip_left.simps lower_def
        weekday_abbrs_def)
  have "fst (Post_author e p w) = Inr (VStr ''Anonymous'')"
    using assms(1,2,5) a
    by (simp add: Post_author_def cached_def computes_def author_body_def get_post_def)
  moreover have "fst (Post_utcpublished e p w) = Inr (VTime (time_at e (clock_reads w)))"
    using assms(1,3,6) s
    by (simp add: Post_utcpublished_def cached_def computes_def utcpublished_body_def get_post_def
        utc_of_log_def utcnow_def)
  moreover have "fst (Post_utcmodified e p w) = Inr (VTime (time_at e (clock_reads w)))"
    using assms(1,4,7) s
    by (simp add: Post_utcmodified_def cached_def computes_def utcmodified_body_def get_post_def
        utc_of_log_def utcnow_def)
  ultimately show ?thesis by simp
qed

text \<open>
  When git fails, nothing catches its error: \<open>author\<close> has no handler, and the
  handler of the timestamps is for \<open>ValueError\<close> only.
\<close>

lemma git_failure_propagates:
  assumes "posts_reg w p = Some self"
    and "git_author e (post_path self) = Inl err"
    and "git_added e (post_path self) = Inl err"
    and "git_modified e (post_path self) = Inl err"
    and "memo w (Author, PostObj p) = None"
    and "memo w (Utcpublished, PostObj p) = None"
    and "memo w (Utcmodified, PostObj p) = None"
  shows "Post_author e p w = (Inl err, w) \<and> Post_utcpublished e p w = (Inl err, w) \<and>
         Post_utcmodified e p w = (Inl err, w)"
  using assms
  by (simp add: Post_author_def Post_utcpublished_def Post_utcmodified_def cached_def
      computes_def author_body_def utcpublished_body_def utcmodified_body_def get_post_def)

text \<open>
  C7. The claim promises the fallbacks for every post without version-control history.
  For the post \<open>posts/hello.md\<close>, not committed, they are returned when git prints
  nothing (\<open>bare_env\<close>: the repository has commits, none of them touches the file).
  In a repository without any commit, or outside a repository, git exits with an error
  and the three accessors raise \<open>CalledProcessError\<close> instead: no author, no
  timestamp, and the clock is not read.
\<close>

theorem no_commits_CalledProcessError:
  "Post_author no_commits_env ''posts/hello.md'' hello_world
     = (Inl (CalledProcessError ''git log''), hello_world) \<and>
   Post_utcpublished no_commits_env ''posts/hello.md'' hello_world
     = (Inl (CalledProcessError ''git log''), hello_world) \<and>
   Post_utcmodified no_commits_env ''posts/hello.md'' hello_world
     = (Inl (CalledProcessError ''git log''), hello_world) \<and>
   fst (Post_author bare_env ''posts/hello.md'' hello_world) = Inr (VStr ''Anonymous'') \<and>
   fst (Post_utcpublished bare_env ''posts/hello.md'' hello_world) = Inr (VTime 1000) \<and>
   fst (Post_utcmodified bare_env ''posts/hello.md'' hello_world) = Inr (VTime 1000)"
proof -
  have h: "posts_reg hello_world ''posts/hello.md'' = Some hello_post"
    "memo hello_world (Author, PostObj ''posts/hello.md'') = None"
    "memo hello_world (Utcpublished, PostObj ''posts/hello.md'') = None"
    "memo hello_world (Utcmodified, PostObj ''posts/hello.md'') = None"
    by (simp_all add: hello_world_def start_def)
  have g: "git_author no_commits_env (post_path hello_post) = Inl (CalledProcessError ''git log'')"
    "git_added no_commits_env (post_path hello_post) = Inl (CalledProcessError ''git log'')"
    "git_modified no_commits_env (post_path hello_post) = Inl (CalledProcessError ''git log'')"
    by (simp_all add: no_commits_env_def)
  have b: "git_author bare_env (post_path hello_post) = Inr []"
    "git_added bare_env (post_path hello_post) = Inr []"
    "git_modified bare_env (post_path hello_post) = Inr []"
    "time_at bare_env (clock_reads hello_world) = 1000"
    by (simp_all add: bare_env_def hello_world_def start_def)
  show ?thesis
    using git_failure_propagates [OF h(1) g h(2-4)] empty_log_fallbacks [OF h(1) b(1-3) h(2-4)] b(4)
    by simp
qed

section \<open>Constructing posts\<close>

subsection \<open>Notebook preparation\<close>

definition dq :: string where
  "dq = [CHR 0x22]"

definition backslash :: string where
  "backslash = [CHR 0x5C]"

text \<open>
  \<^verbatim>\<open>MATHJAX_PATTERNS = [r"\\begin\{align\*?\}", r"\$[^$]*\$"]\<close>, searched in the
  joined source of a Markdown cell: the first matches the text \<open>\begin{align}\<close> or
  \<open>\begin{align*}\<close>, the second two dollar signs with no dollar sign between them,
  that is any two dollar signs.
\<close>

definition mathjax_match :: "string \<Rightarrow> bool" where
  "mathjax_match content =
     (sublist (backslash @ ''begin{align}'') content \<or>
      sublist (backslash @ ''begin{align*}'') content \<or>
      2 \<le> length (filter (\<lambda>c. c = CHR ''$'') content))"

definition needs_mathjax :: "notebook \<Rightarrow> bool" where
  "needs_mathjax dic =
     list_ex (\<lambda>c. cell_type c = ''markdown'' \<and>
                 mathjax_match (map (\<lambda>x. if x = CHR 0x0A then CHR '' '' else x)
                                  (str_join '' '' (source c))))
       (cells dic)"

definition replace_raw_cell_by_markdown_cell :: "notebook \<Rightarrow> notebook" where
  "replace_raw_cell_by_markdown_cell dic =
     dic\<lparr>cells :=
       map (\<lambda>c. if cell_type c = ''raw''
                then c\<lparr>cell_type := ''markdown'',
                       source := [newline @ ''```python'' @ newline] @ source c
                                 @ [newline @ ''```'' @ newline]\<rparr>
                else c)
         (cells dic)\<rparr>"

text \<open>
  \<^verbatim>\<open>
        delete_idxs = []
        for idx, cell in enumerate(dic['cells']):
            if cell['cell_type'] == 'code' and cell["source"][0].strip() == "#!":
                delete_idxs.append(idx)
        for idx in reversed(delete_idxs):
            del dic["cells"][idx]
  \<close>
\<close>

fun marked_idxs :: "(nat \<times> cell) list \<Rightarrow> py_error + nat list" where
  "marked_idxs [] = Inr []"
| "marked_idxs ((idx, c) # rest) =
     (if cell_type c = ''code''
      then (case py_index (source c) 0 of
              Inl err \<Rightarrow> Inl err
            | Inr first \<Rightarrow>
                (case marked_idxs rest of
                   Inl err \<Rightarrow> Inl err
                 | Inr idxs \<Rightarrow> Inr (if strip first = ''#!'' then idx # idxs else idxs)))
      else marked_idxs rest)"

definition delete_marked_codecells :: "notebook \<Rightarrow> py_error + notebook" where
  "delete_marked_codecells dic =
     (case marked_idxs (enumerate 0 (cells dic)) of
        Inl err \<Rightarrow> Inl err
      | Inr delete_idxs \<Rightarrow>
          Inr (dic\<lparr>cells := fold (\<lambda>idx cs. take idx cs @ drop (Suc idx) cs)
                                (rev delete_idxs) (cells dic)\<rparr>))"

text \<open>The two pieces of HTML that stand for a plot, \<open>str.format\<close> applied.\<close>

definition vega_html :: "string \<Rightarrow> string \<Rightarrow> string" where
  "vega_html ident spec =
     ''<div id='' @ dq @ ''vis'' @ ident @ dq @ ''></div>'' @ newline @
     ''<script type='' @ dq @ ''text/javascript'' @ dq @ ''>'' @ newline @
     ''var spec = '' @ spec @ newline @
     ''vegaEmbed('' @ dq @ ''#vis'' @ ident @ dq @ '', spec, {'' @ dq @ ''actions'' @ dq
       @ '':false});'' @ newline @
     ''</script>''"

definition plotly_html :: "string \<Rightarrow> string \<Rightarrow> string" where
  "plotly_html ident spec =
     ''<div id='' @ dq @ ident @ dq @ '' class='' @ dq @ ''plotly-graph-div'' @ dq
       @ ''></div>'' @ newline @
     ''<script type='' @ dq @ ''text/javascript'' @ dq @ ''>'' @ newline @
     ''window.PLOTLYENV=window.PLOTLYENV || {}'' @ newline @
     ''window.PLOTLYENV.BASE_URL='' @ dq @ ''https://plot.ly'' @ dq @ newline @
     ''var spec = '' @ spec @ newline @
     ''Plotly.newPlot('' @ dq @ ident @ dq @ '', spec, {}, {'' @ dq @ ''showLink'' @ dq
       @ '': false, '' @ dq @ ''linkText'' @ dq @ '': '' @ dq @ dq @ ''})'' @ newline @
     newline @ ''</script>'' @ newline"

text \<open>
  \<^verbatim>\<open>_patch_json_for_interactive_plots\<close>. A dictionary is an association list in
  insertion order; the state of the two loops is the \<open>data\<close> of the output at hand with
  the two dictionaries of plots.
  \<^verbatim>\<open>
                for key in keys:
                    id = secrets.token_hex(8)
                    data['text/plain'] = data['text/plain'] + "{{ %s }}\n"%id
                    if 'vega' in key:
                        vega_plots['{{ %s }}'%id] = vega.format(id=id, spec=json.dumps(data[key]))
                    elif 'plotly' in key:
                        plotly_plots['{{ %s }}'%id] = plotly.format(id=id, spec=json.dumps(data[key]))
  \<close>
\<close>

type_synonym plots = "(string \<times> string) list"

definition placeholder :: "string \<Rightarrow> string" where
  "placeholder ident = ''{{ '' @ ident @ '' }}''"

fun jval_text :: "jval \<Rightarrow> string" where
  "jval_text (JStr s) = s"
| "jval_text (JOther s) = s"

fun patch_keys ::
  "env \<Rightarrow> string list \<Rightarrow> (string \<times> jval) list \<times> plots \<times> plots
     \<Rightarrow> ((string \<times> jval) list \<times> plots \<times> plots) run" where
  "patch_keys e [] st w = (Inr st, w)"
| "patch_keys e (key # keys) (data, plotly, vega) w =
     (case token_hex e w of (ident, w1) \<Rightarrow>
        (case map_of data ''text/plain'' of
           None \<Rightarrow> (Inl (KeyError ''text/plain''), w1)
         | Some plain \<Rightarrow>
             (let data1 = AList.update ''text/plain''
                            (JStr (jval_text plain @ placeholder ident @ newline)) data
              in (case map_of data1 key of
                    None \<Rightarrow> (Inl (KeyError key), w1)
                  | Some v \<Rightarrow>
                      if sublist ''vega'' key
                      then patch_keys e keys
                             (data1, plotly,
                              AList.update (placeholder ident) (vega_html ident (json_dumps e v)) vega) w1
                      else if sublist ''plotly'' key
                      then patch_keys e keys
                             (data1,
                              AList.update (placeholder ident) (plotly_html ident (json_dumps e v)) plotly,
                              vega) w1
                      else patch_keys e keys (data1, plotly, vega) w1))))"

text \<open>
  \<^verbatim>\<open>
            for output in outputs:
                data = output.get('data')
                if not data:
                    continue
                keys = [k for k in data if ('plotly' in k or 'vega' in k)]
                if not keys:
                    continue
                del data['image/png']
                data['text/plain'] = ''
                for key in keys: ...
  \<close>
\<close>

fun patch_outputs ::
  "env \<Rightarrow> cell_output list \<Rightarrow> plots \<times> plots \<Rightarrow> (cell_output list \<times> plots \<times> plots) run" where
  "patch_outputs e [] pv w = (Inr ([], pv), w)"
| "patch_outputs e (out # outs) (plotly, vega) w =
     (let keys = (case out_data out of
                    None \<Rightarrow> []
                  | Some data \<Rightarrow>
                      filter (\<lambda>k. sublist ''plotly'' k \<or> sublist ''vega'' k) (map fst data))
      in (case (out_data out, keys) of
            (Some data, _ # _) \<Rightarrow>
              (if map_of data ''image/png'' = None then (Inl (KeyError ''image/png''), w)
               else
                 (case patch_keys e keys
                         (AList.update ''text/plain'' (JStr [])
                            (AList.delete ''image/png'' data), plotly, vega) w of
                    (Inl err, w1) \<Rightarrow> (Inl err, w1)
                  | (Inr (data1, plotly1, vega1), w1) \<Rightarrow>
                      (case patch_outputs e outs (plotly1, vega1) w1 of
                         (Inl err, w2) \<Rightarrow> (Inl err, w2)
                       | (Inr (outs1, pv1), w2) \<Rightarrow>
                           (Inr (out\<lparr>out_data := Some data1\<rparr> # outs1, pv1), w2))))
          | _ \<Rightarrow>
              (case patch_outputs e outs (plotly, vega) w of
                 (Inl err, w2) \<Rightarrow> (Inl err, w2)
               | (Inr (outs1, pv1), w2) \<Rightarrow> (Inr (out # outs1, pv1), w2))))"

fun patch_cells ::
  "env \<Rightarrow> cell list \<Rightarrow> plots \<times> plots \<Rightarrow> (cell list \<times> plots \<times> plots) run" where
  "patch_cells e [] pv w = (Inr ([], pv), w)"
| "patch_cells e (c # cs) pv w =
     (case outputs c of
        Some (out # outs) \<Rightarrow>
          (case patch_outputs e (out # outs) pv w of
             (Inl err, w1) \<Rightarrow> (Inl err, w1)
           | (Inr (outs1, pv1), w1) \<Rightarrow>
               (case patch_cells e cs pv1 w1 of
                  (Inl err, w2) \<Rightarrow> (Inl err, w2)
                | (Inr (cs1, pv2), w2) \<Rightarrow> (Inr (c\<lparr>outputs := Some outs1\<rparr> # cs1, pv2), w2)))
      | _ \<Rightarrow>
          (case patch_cells e cs pv w of
             (Inl err, w2) \<Rightarrow> (Inl err, w2)
           | (Inr (cs1, pv2), w2) \<Rightarrow> (Inr (c # cs1, pv2), w2)))"

text \<open>The patched notebook with \<open>(plotly_plots, vega_plots)\<close>.\<close>

definition patch_json_for_interactive_plots :: "env \<Rightarrow> notebook \<Rightarrow> (notebook \<times> plots \<times> plots) run" where
  "patch_json_for_interactive_plots e dic w =
     (case patch_cells e (cells dic) ([], []) w of
        (Inl err, w1) \<Rightarrow> (Inl err, w1)
      | (Inr (cs, pv), w1) \<Rightarrow> (Inr (dic\<lparr>cells := cs\<rparr>, pv), w1))"

subsection \<open>Reading the source\<close>

text \<open>\<open>file.readlines()\<close>: the lines of a text, each with its line end.\<close>

definition text_lines :: "string \<Rightarrow> string list" where
  "text_lines text =
     (let parts = str_split newline text
      in map (\<lambda>l. l @ newline) (butlast parts) @ (if last parts = [] then [] else [last parts]))"

text \<open>
  \<open>readjson\<close>: \<open>json.load\<close> of the file for a notebook; for a Markdown post one
  Markdown cell that holds the lines of the file.
\<close>

definition readjson :: "env \<Rightarrow> post \<Rightarrow> py_error + notebook" where
  "readjson e self =
     (case read_file e (post_path self) of
        Inl err \<Rightarrow> Inl err
      | Inr text \<Rightarrow>
          (case cls self of
             MarkdownPost \<Rightarrow>
               Inr \<lparr>cells = [\<lparr>cell_type = ''markdown'', source = text_lines text, outputs = None\<rparr>],
                    nb_rest = []\<rparr>
           | _ \<Rightarrow> json_load e text))"

definition update_post :: "path \<Rightarrow> (post \<Rightarrow> post) \<Rightarrow> world \<Rightarrow> world" where
  "update_post p f w =
     (case posts_reg w p of
        None \<Rightarrow> w
      | Some self \<Rightarrow> w\<lparr>posts_reg := (posts_reg w)(p \<mapsto> f self)\<rparr>)"

text \<open>
  \<^verbatim>\<open>
        while not lines[0].strip():
            lines = lines[1:]
  \<close>
\<close>

fun skip_blank :: "string list \<Rightarrow> py_error + string list" where
  "skip_blank [] = Inl IndexError"
| "skip_blank (l # ls) = (if strip l = [] then skip_blank ls else Inr (l # ls))"

text \<open>
  \<open>NotebookPost.readlines\<close>, which \<open>MarkdownPost\<close> inherits:
  \<^verbatim>\<open>
        if not hasattr(self, "json"):
            return []
        with open(self.path, "r") as file:
            lines = self.json["cells"][0]["source"]
        # remove title.
        while not lines[0].strip():
            lines = lines[1:]
        title = lines[0]
        while title[0] == " ":
            title = title[1:]
        if not title.startswith("# "):
            raise RuntimeError(f"could not find title for post '{self.name()}'")
        self.json["cells"][0]["source"] = lines[1:]
        return "".join(lines).split("\n")
  \<close>
  The title is not blank here, so the loop over its leading blanks ends at a character.
\<close>

definition NotebookPost_readlines :: "env \<Rightarrow> path \<Rightarrow> string list run" where
  "NotebookPost_readlines e p w =
     (case get_post w p of
        Inl err \<Rightarrow> (Inl err, w)
      | Inr self \<Rightarrow>
          (case post_json self of
             None \<Rightarrow> (Inr [], w)
           | Some dic \<Rightarrow>
               (case read_file e (post_path self) of
                  Inl err \<Rightarrow> (Inl err, w)
                | Inr text \<Rightarrow>
                    (case py_index (cells dic) 0 of
                       Inl err \<Rightarrow> (Inl err, w)
                     | Inr first \<Rightarrow>
                         (case skip_blank (source first) of
                            Inl err \<Rightarrow> (Inl err, w)
                          | Inr [] \<Rightarrow> (Inl IndexError, w)
                          | Inr (title # rest) \<Rightarrow>
                              if \<not> prefix ''# '' (dropWhile (\<lambda>c. c = CHR '' '') title)
                              then (case Post_name p w of
                                      (Inl err, w1) \<Rightarrow> (Inl err, w1)
                                    | (Inr n, w1) \<Rightarrow>
                                        (Inl (RuntimeError
                                               (''could not find title for post '' @ [CHR 0x27]
                                                @ str_of n @ [CHR 0x27])), w1))
                              else (Inr (str_split newline (concat (title # rest))),
                                    update_post p
                                      (\<lambda>s. s\<lparr>post_json :=
                                          Some (dic\<lparr>cells := (cells dic)
                                                  [0 := first\<lparr>source := rest\<rparr>]\<rparr>)\<rparr>) w))))))"

text \<open>\<open>Post.readlines\<close> and \<open>HtmlPost.readlines\<close>: the text of the file, split at line ends.\<close>

definition readlines :: "env \<Rightarrow> path \<Rightarrow> string list run" where
  "readlines e p w =
     (case get_post w p of
        Inl err \<Rightarrow> (Inl err, w)
      | Inr self \<Rightarrow>
          (case cls self of
             HtmlPost \<Rightarrow> (map_sum id (str_split newline) (read_file e (post_path self)), w)
           | _ \<Rightarrow> NotebookPost_readlines e p w))"

subsection \<open>The constructors\<close>

text \<open>
  \<^verbatim>\<open>
    _posts: Dict[Path, Post] = {}
    def __new__(cls, path):
        if path in cls._posts:
            return cls._posts[path]
        return super().__new__(cls)
    def __init__(self, path):
        if path in self._posts:
            return
        self.path = Path(path)
        self.tags = []
        self._posts[path] = self
        self.lines = self.readlines()
  \<close>
  The object is the entry of the registry under its path from the moment it is entered
  there; \<open>c\<close> is the class of \<open>self\<close>.
\<close>

definition Post_init :: "env \<Rightarrow> post_cls \<Rightarrow> path \<Rightarrow> unit run" where
  "Post_init e c p w =
     (if posts_reg w p \<noteq> None then (Inr (), w)
      else
        (let self = \<lparr>cls = c, post_path = p, post_tags = [], post_lines = [], post_json = None,
                     mathjax = False, plotly_plots = [], vega_plots = []\<rparr>;
             w1 = w\<lparr>posts_reg := (posts_reg w)(p \<mapsto> self)\<rparr>
         in (case readlines e p w1 of
               (Inl err, w2) \<Rightarrow> (Inl err, w2)
             | (Inr ls, w2) \<Rightarrow> (Inr (), update_post p (\<lambda>s. s\<lparr>post_lines := ls\<rparr>) w2))))"

text \<open>
  \<^verbatim>\<open>
    def __init__(self, path):
        super().__init__(path)
        self.json = self.readjson()
        self.mathjax = self._needs_mathjax(self.json)
        self._replace_raw_cell_by_markdown_cell(self.json)
        self._delete_marked_codecells(self.json)
        self.plotly_plots, self.vega_plots = self._patch_json_for_interactive_plots(self.json)
        self.lines = self.readlines()
  \<close>
\<close>

definition NotebookPost_init :: "env \<Rightarrow> post_cls \<Rightarrow> path \<Rightarrow> unit run" where
  "NotebookPost_init e c p w =
     (case Post_init e c p w of
        (Inl err, w1) \<Rightarrow> (Inl err, w1)
      | (Inr _, w1) \<Rightarrow>
          (case get_post w1 p of
             Inl err \<Rightarrow> (Inl err, w1)
           | Inr self \<Rightarrow>
               (case readjson e self of
                  Inl err \<Rightarrow> (Inl err, w1)
                | Inr dic \<Rightarrow>
                    (let w2 = update_post p
                                (\<lambda>s. s\<lparr>post_json := Some (replace_raw_cell_by_markdown_cell dic),
                                      mathjax := needs_mathjax dic\<rparr>) w1
                     in (case delete_marked_codecells (replace_raw_cell_by_markdown_cell dic) of
                           Inl err \<Rightarrow> (Inl err, w2)
                         | Inr dic1 \<Rightarrow>
                             (case patch_json_for_interactive_plots e dic1
                                     (update_post p (\<lambda>s. s\<lparr>post_json := Some dic1\<rparr>) w2) of
                                (Inl err, w3) \<Rightarrow> (Inl err, w3)
                              | (Inr (dic2, plotly, vega), w3) \<Rightarrow>
                                  (let w4 = update_post p
                                              (\<lambda>s. s\<lparr>post_json := Some dic2, plotly_plots := plotly,
                                                    vega_plots := vega\<rparr>) w3
                                   in (case readlines e p w4 of
                                         (Inl err, w5) \<Rightarrow> (Inl err, w5)
                                       | (Inr ls, w5) \<Rightarrow>
                                           (Inr (), update_post p (\<lambda>s. s\<lparr>post_lines := ls\<rparr>) w5)))))))))"

text \<open>
  \<open>cls(path)\<close>: \<open>__new__\<close> hands out the registered object when there is one, and
  Python then runs \<open>__init__\<close> of the object's own class on it if it is an instance of
  \<open>cls\<close>. \<open>MarkdownPost\<close> derives from \<open>NotebookPost\<close>; both and \<open>HtmlPost\<close>
  derive from \<open>Post\<close>.
\<close>

definition is_instance :: "post_cls \<Rightarrow> post_cls \<Rightarrow> bool" where
  "is_instance c0 c = (c0 = c \<or> (c0 = MarkdownPost \<and> c = NotebookPost))"

definition init :: "env \<Rightarrow> post_cls \<Rightarrow> path \<Rightarrow> unit run" where
  "init e c p = (case c of HtmlPost \<Rightarrow> Post_init e c p | _ \<Rightarrow> NotebookPost_init e c p)"

definition construct :: "env \<Rightarrow> post_cls \<Rightarrow> path \<Rightarrow> unit run" where
  "construct e c p w =
     (case posts_reg w p of
        None \<Rightarrow> init e c p w
      | Some self \<Rightarrow> if is_instance (cls self) c then init e (cls self) p w else (Inr (), w))"

text \<open>Four Markdown files: empty, blank, without a heading, with a heading.\<close>

definition titles_env :: env where
  "titles_env =
     bare_env\<lparr>fs := [''posts/empty.md'' \<mapsto> File [],
                      ''posts/blank.md'' \<mapsto> File (newline @ ''  '' @ newline),
                      ''posts/untitled.md'' \<mapsto> File (''Hello'' @ newline @ ''words''),
                      ''posts/titled.md'' \<mapsto> File (''# Hello'' @ newline @ ''words'')]\<rparr>"

text \<open>
  A notebook with a plotly output, and an HTML page beside it. The tokens of
  \<open>bare_env\<close> differ from one another, as random tokens do but for chance.
\<close>

definition plot_notebook :: notebook where
  "plot_notebook =
     \<lparr>cells =
        [\<lparr>cell_type = ''markdown'', source = [''# A plot'' @ newline, ''Some words.''],
          outputs = None\<rparr>,
         \<lparr>cell_type = ''code'', source = [''fig.show()''],
          outputs = Some [\<lparr>out_data = Some [(''application/vnd.plotly.v1+json'', JOther ''{}''),
                                             (''image/png'', JStr ''iVBOR''),
                                             (''text/plain'', JStr ''<Figure>'')]\<rparr>]\<rparr>],
      nb_rest = []\<rparr>"

definition plot_env :: env where
  "plot_env = bare_env\<lparr>fs := [''posts/plot.ipynb'' \<mapsto> File ''{}'',
                               ''posts/page.html'' \<mapsto> File ''<h1>Page</h1>''],
                        json_load := (\<lambda>s. Inr plot_notebook),
                        json_dumps := jval_text\<rparr>"

text \<open>
  C6 (the code departs from the claim). A Markdown post whose file is empty, or holds
  blank lines only, has no title line at all. Its construction does not end with the
  error that names the post, nor does it succeed: the loop that skips blank lines reads
  \<open>lines[0]\<close> of an empty list and raises \<open>IndexError\<close>. A file whose first
  non-blank line is no heading gets the error that names the post, and a file with a
  heading is constructed.
\<close>

theorem construct_empty_markdown_IndexError:
  "fst (construct titles_env MarkdownPost ''posts/empty.md'' start) = Inl IndexError \<and>
   fst (construct titles_env MarkdownPost ''posts/blank.md'' start) = Inl IndexError \<and>
   fst (construct titles_env MarkdownPost ''posts/untitled.md'' start)
     = Inl (RuntimeError (''could not find title for post '' @ [CHR 0x27] @ ''untitled''
                          @ [CHR 0x27])) \<and>
   fst (construct titles_env MarkdownPost ''posts/titled.md'' start) = Inr () \<and>
   computed (snd (construct titles_env MarkdownPost ''posts/titled.md'' start)) = []"
  by code_simp

text \<open>
  C1 (the code departs from the claim). \<open>Post.__init__\<close> returns at once for a
  registered path, but \<open>NotebookPost.__init__\<close> goes on after it: the second
  construction of a notebook post reads and patches the notebook again. With a plot
  in the notebook this draws a fresh token, and the post's \<open>plotly_plots\<close> changes
  its key. The tag list, here set as a tag's discovery sets it, is kept; and the
  second construction of an HTML post changes nothing of the post.
\<close>

theorem construct_notebook_twice_reinitialises:
  "(let p = ''posts/plot.ipynb'';
        w1 = update_post p (\<lambda>s. s\<lparr>post_tags := post_tags s @ [''tags/x'']\<rparr>)
               (snd (construct plot_env NotebookPost p start));
        w2 = snd (construct plot_env NotebookPost p w1);
        q = ''posts/page.html'';
        v1 = snd (construct plot_env HtmlPost q start);
        v2 = snd (construct plot_env HtmlPost q v1)
    in fst (construct plot_env NotebookPost p start) = Inr () \<and>
       fst (construct plot_env NotebookPost p w1) = Inr () \<and>
       map_option (\<lambda>s. map fst (plotly_plots s)) (posts_reg w1 p) = Some [''{{ a }}''] \<and>
       map_option (\<lambda>s. map fst (plotly_plots s)) (posts_reg w2 p) = Some [''{{ aa }}''] \<and>
       tokens_drawn w1 = 1 \<and> tokens_drawn w2 = 2 \<and>
       map_option post_tags (posts_reg w1 p) = Some [''tags/x''] \<and>
       map_option post_tags (posts_reg w2 p) = Some [''tags/x''] \<and>
       fst (construct plot_env HtmlPost q v1) = Inr () \<and>
       posts_reg v2 q = posts_reg v1 q \<and> posts_reg v1 q \<noteq> None)"
  by code_simp

section \<open>Tags and the index\<close>

subsection \<open>Sorting with a key\<close>

text \<open>
  \<open>sorted(xs, key=f)\<close> calls \<open>f\<close> once on each element, in order, and then sorts
  by the keys, keeping the order of elements with equal keys. With
  \<open>reverse=True\<close> the order is descending and elements with equal keys still keep
  their order: the list is reversed, sorted, and reversed again.
\<close>

fun eval_keys :: "('a \<Rightarrow> 'k run) \<Rightarrow> 'a list \<Rightarrow> ('k \<times> 'a) list run" where
  "eval_keys f [] w = (Inr [], w)"
| "eval_keys f (x # xs) w =
     (case f x w of
        (Inl err, w1) \<Rightarrow> (Inl err, w1)
      | (Inr k, w1) \<Rightarrow>
          (case eval_keys f xs w1 of
             (Inl err, w2) \<Rightarrow> (Inl err, w2)
           | (Inr ks, w2) \<Rightarrow> (Inr ((k, x) # ks), w2)))"

definition py_sorted :: "('k::linorder \<times> 'a) list \<Rightarrow> 'a list" where
  "py_sorted keyed = map snd (sort_key fst keyed)"

definition py_sorted_reverse :: "('k::linorder \<times> 'a) list \<Rightarrow> 'a list" where
  "py_sorted_reverse keyed = map snd (rev (sort_key fst (rev keyed)))"

subsection \<open>The memoised methods of a tag\<close>

definition num_posts_body :: "path \<Rightarrow> val run" where
  "num_posts_body t =
     computes Num_posts (TagObj t) (\<lambda>w.
     (case get_tag w t of
        Inl err \<Rightarrow> (Inl err, w)
      | Inr self \<Rightarrow> (Inr (VInt (int (length (tag_posts self)))), w)))"

definition Tag_num_posts :: "path \<Rightarrow> val run" where
  "Tag_num_posts t = cached Num_posts (TagObj t) (num_posts_body t)"

definition tag_name_body :: "path \<Rightarrow> val run" where
  "tag_name_body t =
     computes Name (TagObj t) (\<lambda>w.
     (case get_tag w t of
        Inl err \<Rightarrow> (Inl err, w)
      | Inr self \<Rightarrow> (map_sum id VStr (Tag_name (tag_path self)), w)))"

definition Tag_name_method :: "path \<Rightarrow> val run" where
  "Tag_name_method t = cached Name (TagObj t) (tag_name_body t)"

text \<open>\<open>uri\<close>: \<^verbatim>\<open>str(TAGDIR/self.name())+"/"\<close>.\<close>

definition tag_uri_body :: "path \<Rightarrow> val run" where
  "tag_uri_body t =
     computes Uri (TagObj t) (\<lambda>w.
     (case Tag_name_method t w of
        (Inl err, w1) \<Rightarrow> (Inl err, w1)
      | (Inr n, w1) \<Rightarrow> (Inr (VStr (path_join TAGDIR (str_of n) @ ''/'')), w1)))"

definition Tag_uri :: "path \<Rightarrow> val run" where
  "Tag_uri t = cached Uri (TagObj t) (tag_uri_body t)"

text \<open>The two sort keys: \<^verbatim>\<open>x.utcpublished()\<close> and \<^verbatim>\<open>(-x.num_posts(), x.name())\<close>.\<close>

definition post_key :: "env \<Rightarrow> path \<Rightarrow> int run" where
  "post_key e p w =
     (case Post_utcpublished e p w of
        (Inl err, w1) \<Rightarrow> (Inl err, w1)
      | (Inr v, w1) \<Rightarrow> (Inr (time_of v), w1))"

definition tag_key :: "path \<Rightarrow> (int \<times> string) run" where
  "tag_key t w =
     (case Tag_num_posts t w of
        (Inl err, w1) \<Rightarrow> (Inl err, w1)
      | (Inr n, w1) \<Rightarrow>
          (case Tag_name_method t w1 of
             (Inl err, w2) \<Rightarrow> (Inl err, w2)
           | (Inr s, w2) \<Rightarrow> (Inr (- int_of n, str_of s), w2)))"

subsection \<open>Tag.__init__\<close>

text \<open>\<open>Path.suffix\<close>, and the classes by suffix.\<close>

definition name_suffix :: "string \<Rightarrow> string" where
  "name_suffix name =
     (case rfind CHR ''.'' name of
        None \<Rightarrow> []
      | Some i \<Rightarrow> if 0 < i \<and> i < length name - 1 then drop i name else [])"

definition path_suffix :: "path \<Rightarrow> string" where
  "path_suffix p = name_suffix (components_name (path_components p))"

definition EXTS :: "string \<Rightarrow> post_cls option" where
  "EXTS ext =
     (if ext = ''.md'' then Some MarkdownPost
      else if ext = ''.ipynb'' then Some NotebookPost
      else if ext = ''.html'' then Some HtmlPost
      else None)"

definition update_tag :: "path \<Rightarrow> (tag \<Rightarrow> tag) \<Rightarrow> world \<Rightarrow> world" where
  "update_tag t f w =
     (case tags_reg w t of
        None \<Rightarrow> w
      | Some self \<Rightarrow> w\<lparr>tags_reg := (tags_reg w)(t \<mapsto> f self)\<rparr>)"

text \<open>
  \<^verbatim>\<open>
        for post_path in self.path.glob("*"):
            post_path = post_path.resolve().relative_to(Path(".").resolve())
            if post_path.is_dir():
                continue
            clsname = EXTS.get(post_path.suffix, None)
            if clsname is None:
                continue
            cls = eval(clsname)
            post: Post = cls(post_path)
            self.posts.append(post)
            post.tags.append(self)
  \<close>
\<close>

fun discover :: "env \<Rightarrow> path \<Rightarrow> path list \<Rightarrow> unit run" where
  "discover e t [] w = (Inr (), w)"
| "discover e t (found # rest) w =
     (case resolve e found of
        Inl err \<Rightarrow> (Inl err, w)
      | Inr resolved \<Rightarrow>
          if fs e resolved = Some Dir then discover e t rest w
          else (case EXTS (path_suffix resolved) of
                  None \<Rightarrow> discover e t rest w
                | Some c \<Rightarrow>
                    (case construct e c resolved w of
                       (Inl err, w1) \<Rightarrow> (Inl err, w1)
                     | (Inr _, w1) \<Rightarrow>
                         discover e t rest
                           (update_post resolved (\<lambda>s. s\<lparr>post_tags := post_tags s @ [t]\<rparr>)
                              (update_tag t (\<lambda>g. g\<lparr>tag_posts := tag_posts g @ [resolved]\<rparr>) w1)))))"

text \<open>
  \<^verbatim>\<open>
        for post in self.posts:
            post.tags = sorted(post.tags, key=lambda x: (-x.num_posts(), x.name()))
  \<close>
\<close>

fun sort_post_tags :: "path list \<Rightarrow> unit run" where
  "sort_post_tags [] w = (Inr (), w)"
| "sort_post_tags (p # ps) w =
     (case get_post w p of
        Inl err \<Rightarrow> (Inl err, w)
      | Inr post \<Rightarrow>
          (case eval_keys tag_key (post_tags post) w of
             (Inl err, w1) \<Rightarrow> (Inl err, w1)
           | (Inr keyed, w1) \<Rightarrow>
               sort_post_tags ps (update_post p (\<lambda>s. s\<lparr>post_tags := py_sorted keyed\<rparr>) w1)))"

text \<open>
  \<^verbatim>\<open>
        if not os.path.isdir(HTMLDIR/TAGDIR/self.name()):
            os.makedirs(HTMLDIR/TAGDIR/self.name())
        symbolic_link(HTMLDIR/STATICDIR, HTMLDIR/TAGDIR/self.name())
  \<close>
  A directory exists when the file system had it at the start or the process made it.
\<close>

definition prepare_output_dir :: "env \<Rightarrow> path \<Rightarrow> unit run" where
  "prepare_output_dir e t w =
     (case Tag_name_method t w of
        (Inl err, w1) \<Rightarrow> (Inl err, w1)
      | (Inr n, w1) \<Rightarrow>
          (let d = path_join (path_join HTMLDIR TAGDIR) (str_of n);
               made = (if fs e d = Some Dir \<or> MadeDirs d \<in> set (effects w1) then Inr w1
                       else if fs e d \<noteq> None then Inl (OSError d)
                       else Inr (w1\<lparr>effects := effects w1 @ [MadeDirs d]\<rparr>))
           in (case made of
                 Inl err \<Rightarrow> (Inl err, w1)
               | Inr w2 \<Rightarrow>
                   (case run_ln e (path_join HTMLDIR STATICDIR) d of
                      Some err \<Rightarrow> (Inl err, w2)
                    | None \<Rightarrow>
                        (Inr (), w2\<lparr>effects := effects w2
                                      @ [Linked (path_join HTMLDIR STATICDIR) d]\<rparr>)))))"

text \<open>
  \<^verbatim>\<open>
    def __init__(self, path):
        if path in self._tags:
            return
        self.path = Path(path)
        self.posts = []
        self._tags[path] = self
        for post_path in self.path.glob("*"): ...
        self.posts = sorted(self.posts, key=lambda x: x.utcpublished(), reverse=True)
        for post in self.posts: ...
        ...
  \<close>
  \<open>Tag(path)\<close> hands out the registered tag when there is one, and \<open>__init__\<close> then
  returns at once.
\<close>

definition Tag_init :: "env \<Rightarrow> path \<Rightarrow> unit run" where
  "Tag_init e t w =
     (if tags_reg w t \<noteq> None then (Inr (), w)
      else
        (case discover e t (glob e t)
                (w\<lparr>tags_reg := (tags_reg w)(t \<mapsto> \<lparr>tag_path = t, tag_posts = []\<rparr>)\<rparr>) of
           (Inl err, w2) \<Rightarrow> (Inl err, w2)
         | (Inr _, w2) \<Rightarrow>
             (case get_tag w2 t of
                Inl err \<Rightarrow> (Inl err, w2)
              | Inr self \<Rightarrow>
                  (case eval_keys (post_key e) (tag_posts self) w2 of
                     (Inl err, w3) \<Rightarrow> (Inl err, w3)
                   | (Inr keyed, w3) \<Rightarrow>
                       (case sort_post_tags (py_sorted_reverse keyed)
                               (update_tag t (\<lambda>g. g\<lparr>tag_posts := py_sorted_reverse keyed\<rparr>) w3) of
                          (Inl err, w4) \<Rightarrow> (Inl err, w4)
                        | (Inr _, w4) \<Rightarrow> prepare_output_dir e t w4)))))"

subsection \<open>Index.__init__\<close>

text \<open>
  \<^verbatim>\<open>
    def __init__(self):
        self.posts, self.tags = [], []
        for post_path in POSTDIR.glob("*"):
            if post_path.is_dir():
                continue
            clsname = EXTS.get(post_path.suffix, None)
            if clsname is None:
                continue
            cls = eval(clsname)
            post: Post = cls(post_path)
            self.posts.append(post)
        for tag_path in TAGDIR.glob("*"):
            if not tag_path.is_dir():
                continue
            self.tags.append(Tag(tag_path))
        self.tags = sorted(self.tags, key=lambda x: (-x.num_posts(), x.name()))
        self.posts = sorted(self.posts, key=lambda x: x.utcpublished(), reverse=True)
  \<close>
\<close>

fun collect_posts :: "env \<Rightarrow> path list \<Rightarrow> path list \<Rightarrow> path list run" where
  "collect_posts e [] posts w = (Inr posts, w)"
| "collect_posts e (found # rest) posts w =
     (if fs e found = Some Dir then collect_posts e rest posts w
      else (case EXTS (path_suffix found) of
              None \<Rightarrow> collect_posts e rest posts w
            | Some c \<Rightarrow>
                (case construct e c found w of
                   (Inl err, w1) \<Rightarrow> (Inl err, w1)
                 | (Inr _, w1) \<Rightarrow> collect_posts e rest (posts @ [found]) w1)))"

fun collect_tags :: "env \<Rightarrow> path list \<Rightarrow> path list \<Rightarrow> path list run" where
  "collect_tags e [] tags w = (Inr tags, w)"
| "collect_tags e (found # rest) tags w =
     (if fs e found \<noteq> Some Dir then collect_tags e rest tags w
      else (case Tag_init e found w of
              (Inl err, w1) \<Rightarrow> (Inl err, w1)
            | (Inr _, w1) \<Rightarrow> collect_tags e rest (tags @ [found]) w1))"

definition Index_init :: "env \<Rightarrow> index run" where
  "Index_init e w =
     (case collect_posts e (glob e POSTDIR) [] w of
        (Inl err, w1) \<Rightarrow> (Inl err, w1)
      | (Inr posts, w1) \<Rightarrow>
          (case collect_tags e (glob e TAGDIR) [] w1 of
             (Inl err, w2) \<Rightarrow> (Inl err, w2)
           | (Inr tags, w2) \<Rightarrow>
               (case eval_keys tag_key tags w2 of
                  (Inl err, w3) \<Rightarrow> (Inl err, w3)
                | (Inr keyed_tags, w3) \<Rightarrow>
                    (case eval_keys (post_key e) posts w3 of
                       (Inl err, w4) \<Rightarrow> (Inl err, w4)
                     | (Inr keyed_posts, w4) \<Rightarrow>
                         (Inr \<lparr>index_posts = py_sorted_reverse keyed_posts,
                               index_tags = py_sorted keyed_tags\<rparr>, w4)))))"

text \<open>
  A small blog for examples: three posts, published in the order b, c, a, and two
  tags, \<open>x\<close> with the posts a and b and \<open>y\<close> with the post b.
\<close>

definition blog_fs :: "path \<Rightarrow> fs_entry option" where
  "blog_fs =
     [''posts/a.md'' \<mapsto> File (''# A'' @ newline @ ''words'' @ newline),
      ''posts/b.md'' \<mapsto> File (''# B'' @ newline),
      ''posts/c.html'' \<mapsto> File ''<h1>C</h1>'',
      ''posts/static'' \<mapsto> Dir,
      ''tags/x'' \<mapsto> Dir,
      ''tags/y'' \<mapsto> Dir]"

definition blog_glob :: "path \<Rightarrow> path list" where
  "blog_glob d =
     (if d = ''posts'' then [''posts/a.md'', ''posts/b.md'', ''posts/c.html'', ''posts/static'']
      else if d = ''tags'' then [''tags/x'', ''tags/y'']
      else if d = ''tags/x'' then [''tags/x/b.md'', ''tags/x/a.md'']
      else if d = ''tags/y'' then [''tags/y/b.md'']
      else [])"

definition blog_resolve :: "path \<Rightarrow> py_error + path" where
  "blog_resolve p = Inr (path_join POSTDIR (components_name (path_components p)))"

definition blog_dates :: "string \<Rightarrow> (int \<times> int) option" where
  "blog_dates s =
     (if s = ''Mon, posts/a.md'' then Some (300, 0)
      else if s = ''Mon, posts/b.md'' then Some (3700, 3600)
      else if s = ''Mon, posts/c.html'' then Some (200, 0)
      else None)"

definition blog_env :: env where
  "blog_env = bare_env\<lparr>fs := blog_fs, glob := blog_glob, resolve := blog_resolve,
                        git_added := (\<lambda>p. Inr (''Mon, '' @ p @ newline)),
                        strptime_fields := blog_dates\<rparr>"

subsection \<open>What the steps of the construction leave alone\<close>

lemma update_post_frame [simp]:
  "tags_reg (update_post p f w) = tags_reg w"
  "memo (update_post p f w) = memo w"
  by (simp_all add: update_post_def split: option.splits)

lemma update_tag_frame [simp]:
  "posts_reg (update_tag t f w) = posts_reg w"
  "memo (update_tag t f w) = memo w"
  by (simp_all add: update_tag_def split: option.splits)

lemma update_tag_tags_reg:
  "tags_reg (update_tag t f w) t' = (if t' = t then map_option f (tags_reg w t) else tags_reg w t')"
  by (simp add: update_tag_def split: option.splits)

text \<open>A step that touches neither the caches nor the registry of tags.\<close>

definition post_only :: "world \<Rightarrow> world \<Rightarrow> bool" where
  "post_only w w' \<longleftrightarrow> memo w' = memo w \<and> tags_reg w' = tags_reg w"

lemma post_only_refl [simp]: "post_only w w"
  by (simp add: post_only_def)

lemma post_only_trans: "post_only w w1 \<Longrightarrow> post_only w1 w2 \<Longrightarrow> post_only w w2"
  by (simp add: post_only_def)

lemma post_only_update_post [simp]: "post_only w (update_post p f w')  \<longleftrightarrow> post_only w w'"
  by (simp add: post_only_def)

lemma patch_keys_post_only:
  "patch_keys e keys st w = (r, w') \<Longrightarrow> post_only w w'"
proof (induction e keys st w rule: patch_keys.induct)
  case (1 e st w)
  then show ?case by simp
next
  case (2 e key keys data plotly vega w)
  let ?w1 = "w\<lparr>tokens_drawn := Suc (tokens_drawn w)\<rparr>"
  have w1: "post_only w ?w1" by (simp add: post_only_def)
  have "post_only ?w1 w'"
    using "2.prems" "2.IH"
    by (auto simp: token_hex_def Let_def split: option.splits if_splits)
  with w1 show ?case by (rule post_only_trans)
qed

lemma patch_outputs_post_only:
  "patch_outputs e outs pv w = (r, w') \<Longrightarrow> post_only w w'"
proof (induction outs arbitrary: pv w r w')
  case Nil
  then show ?case by (cases pv) simp
next
  case (Cons out outs)
  obtain plotly vega where pv: "pv = (plotly, vega)" by (cases pv)
  show ?case
    using Cons.prems unfolding pv
    by (auto simp del: patch_keys.simps simp: Let_def post_only_def
        split: option.splits list.splits if_splits prod.splits sum.splits
        dest!: patch_keys_post_only Cons.IH)
qed

lemma patch_cells_post_only:
  "patch_cells e cs pv w = (r, w') \<Longrightarrow> post_only w w'"
proof (induction cs arbitrary: pv w r w')
  case Nil
  then show ?case by simp
next
  case (Cons c cs)
  show ?case
    using Cons.prems
    by (auto simp del: patch_outputs.simps simp: post_only_def
        split: option.splits list.splits prod.splits sum.splits
        dest!: patch_outputs_post_only Cons.IH)
qed

lemma patch_json_post_only:
  "patch_json_for_interactive_plots e dic w = (r, w') \<Longrightarrow> post_only w w'"
  by (auto simp: patch_json_for_interactive_plots_def split: prod.splits sum.splits
      dest: patch_cells_post_only)

lemma NotebookPost_readlines_post_only:
  "NotebookPost_readlines e p w = (Inr ls, w') \<Longrightarrow> post_only w w'"
  by (auto simp: NotebookPost_readlines_def
      split: sum.splits option.splits list.splits if_splits prod.splits)

lemma readlines_post_only:
  "readlines e p w = (Inr ls, w') \<Longrightarrow> post_only w w'"
  by (auto simp: readlines_def split: sum.splits post_cls.splits
      dest: NotebookPost_readlines_post_only)

lemma Post_init_post_only:
  "Post_init e c p w = (Inr u, w') \<Longrightarrow> post_only w w'"
proof -
  assume a: "Post_init e c p w = (Inr u, w')"
  show ?thesis
  proof (cases "posts_reg w p")
    case (Some x)
    with a show ?thesis by (simp add: Post_init_def)
  next
    case None
    let ?w1 = "w\<lparr>posts_reg := (posts_reg w)(p \<mapsto> \<lparr>cls = c, post_path = p, post_tags = [],
                 post_lines = [], post_json = None, mathjax = False, plotly_plots = [],
                 vega_plots = []\<rparr>)\<rparr>"
    have w1: "post_only w ?w1" by (simp add: post_only_def)
    from a None obtain ls w2 where r: "readlines e p ?w1 = (Inr ls, w2)"
      and w': "w' = update_post p (\<lambda>s. s\<lparr>post_lines := ls\<rparr>) w2"
      by (auto simp: Post_init_def Let_def split: prod.splits sum.splits)
    from r have "post_only ?w1 w2" by (rule readlines_post_only)
    with w1 have "post_only w w2" by (rule post_only_trans)
    with w' show ?thesis by simp
  qed
qed

lemma NotebookPost_init_post_only:
  assumes "NotebookPost_init e c p w = (Inr u, w')"
  shows "post_only w w'"
proof -
  from assms obtain u1 w1 where i: "Post_init e c p w = (Inr u1, w1)"
    by (auto simp: NotebookPost_init_def split: prod.splits sum.splits)
  then have 1: "post_only w w1" by (rule Post_init_post_only)
  from assms i obtain self dic dic1 where s: "get_post w1 p = Inr self"
    and d: "readjson e self = Inr dic"
    and d1: "delete_marked_codecells (replace_raw_cell_by_markdown_cell dic) = Inr dic1"
    by (auto simp: NotebookPost_init_def Let_def split: prod.splits sum.splits)
  let ?w2 = "update_post p (\<lambda>s. s\<lparr>post_json := Some dic1\<rparr>)
               (update_post p (\<lambda>s. s\<lparr>post_json := Some (replace_raw_cell_by_markdown_cell dic),
                                     mathjax := needs_mathjax dic\<rparr>) w1)"
  from assms i s d d1 obtain dic2 plotly vega w3
    where pj: "patch_json_for_interactive_plots e dic1 ?w2 = (Inr (dic2, plotly, vega), w3)"
    by (auto simp: NotebookPost_init_def Let_def split: prod.splits sum.splits)
  then have 3: "post_only ?w2 w3" by (rule patch_json_post_only)
  let ?w4 = "update_post p (\<lambda>s. s\<lparr>post_json := Some dic2, plotly_plots := plotly,
                                   vega_plots := vega\<rparr>) w3"
  from assms i s d d1 pj obtain ls w5 where r: "readlines e p ?w4 = (Inr ls, w5)"
    and w': "w' = update_post p (\<lambda>s. s\<lparr>post_lines := ls\<rparr>) w5"
    by (auto simp: NotebookPost_init_def Let_def split: prod.splits sum.splits)
  from r have 5: "post_only ?w4 w5" by (rule readlines_post_only)
  have "post_only w ?w2" using 1 by simp
  with 3 have "post_only w w3" using post_only_trans by blast
  then have "post_only w ?w4" by simp
  with 5 have "post_only w w5" using post_only_trans by blast
  with w' show ?thesis by simp
qed

lemma construct_post_only:
  "construct e c p w = (Inr u, w') \<Longrightarrow> post_only w w'"
  by (auto simp: construct_def init_def split: option.splits post_cls.splits if_splits
      dest: Post_init_post_only NotebookPost_init_post_only)

subsection \<open>The caches during the construction\<close>

definition memo_le :: "world \<Rightarrow> world \<Rightarrow> bool" where
  "memo_le w w' \<longleftrightarrow> (\<forall>k v. memo w k = Some v \<longrightarrow> memo w' k = Some v)"

lemma memo_le_refl [simp]: "memo_le w w"
  by (simp add: memo_le_def)

lemma memo_le_trans: "memo_le w w1 \<Longrightarrow> memo_le w1 w2 \<Longrightarrow> memo_le w w2"
  by (simp add: memo_le_def)

text \<open>
  A cached value has the type its method returns, and a cached member count is the
  length of the tag's list.
\<close>

definition memo_typed :: "world \<Rightarrow> bool" where
  "memo_typed w \<longleftrightarrow>
     (\<forall>p v. memo w (Utcpublished, PostObj p) = Some v \<longrightarrow> (\<exists>t. v = VTime t)) \<and>
     (\<forall>t v. memo w (Name, TagObj t) = Some v \<longrightarrow> (\<exists>s. v = VStr s)) \<and>
     (\<forall>t v. memo w (Num_posts, TagObj t) = Some v \<longrightarrow>
        (\<exists>g. tags_reg w t = Some g \<and> v = VInt (int (length (tag_posts g)))))"

text \<open>A list of posts in descending order of the cached publish times.\<close>

definition desc :: "world \<Rightarrow> path list \<Rightarrow> bool" where
  "desc w ps \<longleftrightarrow>
     (\<exists>ts. map (\<lambda>p. memo w (Utcpublished, PostObj p)) ps = map (\<lambda>t. Some (VTime t)) ts \<and>
           sorted (rev ts))"

definition tags_sorted_except :: "path set \<Rightarrow> world \<Rightarrow> bool" where
  "tags_sorted_except T w \<longleftrightarrow>
     (\<forall>t g. t \<notin> T \<longrightarrow> tags_reg w t = Some g \<longrightarrow> desc w (tag_posts g))"

lemma desc_memo_le:
  assumes "desc w ps" and "memo_le w w'"
  shows "desc w' ps"
proof -
  from assms(1) obtain ts
    where m: "map (\<lambda>p. memo w (Utcpublished, PostObj p)) ps = map (\<lambda>t. Some (VTime t)) ts"
      and s: "sorted (rev ts)"
    by (auto simp: desc_def)
  from m have len: "length ps = length ts" by (metis length_map)
  have "map (\<lambda>p. memo w' (Utcpublished, PostObj p)) ps = map (\<lambda>t. Some (VTime t)) ts"
  proof (rule nth_equalityI)
    show "length (map (\<lambda>p. memo w' (Utcpublished, PostObj p)) ps)
            = length (map (\<lambda>t. Some (VTime t)) ts)"
      using len by simp
  next
    fix i assume i: "i < length (map (\<lambda>p. memo w' (Utcpublished, PostObj p)) ps)"
    then have "map (\<lambda>p. memo w (Utcpublished, PostObj p)) ps ! i = map (\<lambda>t. Some (VTime t)) ts ! i"
      using m by simp
    then have "memo w (Utcpublished, PostObj (ps ! i)) = Some (VTime (ts ! i))"
      using i len by simp
    then have "memo w' (Utcpublished, PostObj (ps ! i)) = Some (VTime (ts ! i))"
      using assms(2) by (simp add: memo_le_def)
    then show "map (\<lambda>p. memo w' (Utcpublished, PostObj p)) ps ! i
                 = map (\<lambda>t. Some (VTime t)) ts ! i"
      using i len by simp
  qed
  with s show ?thesis by (auto simp: desc_def)
qed

lemma tags_sorted_except_step:
  assumes "tags_sorted_except T w" and "memo_le w w'" and "tags_reg w' = tags_reg w"
  shows "tags_sorted_except T w'"
  using assms desc_memo_le unfolding tags_sorted_except_def by metis

lemma post_only_memo_typed: "post_only w w' \<Longrightarrow> memo_typed w \<Longrightarrow> memo_typed w'"
  by (simp add: post_only_def memo_typed_def)

lemma post_only_memo_le: "post_only w w' \<Longrightarrow> memo_le w w'"
  by (simp add: post_only_def memo_le_def)

lemma post_only_tags_sorted:
  "post_only w w' \<Longrightarrow> tags_sorted_except T w \<Longrightarrow> tags_sorted_except T w'"
  by (simp add: post_only_def tags_sorted_except_def desc_def)

text \<open>One call of a memoised method that returns.\<close>

lemma cached_step:
  assumes "cached a self body w = (Inr v, w')"
  shows "memo w (a, self) = Some v \<and> w' = w \<or>
         memo w (a, self) = None \<and>
           (\<exists>w1. body w = (Inr v, w1) \<and>
                 w' = w1\<lparr>memo := (memo w1)((a, self) \<mapsto> v)\<rparr>)"
proof (cases "memo w (a, self)")
  case (Some v0)
  with assms show ?thesis by (simp add: cached_def)
next
  case None
  obtain r w1 where b: "body w = (r, w1)"
    by (cases "body w")
  with None assms show ?thesis by (cases r) (simp_all add: cached_def)
qed

lemma utcpublished_body_step:
  assumes "utcpublished_body e p w0 = (Inr v, w1)"
  shows "(\<exists>t. v = VTime t) \<and> memo w1 = memo w0 \<and> tags_reg w1 = tags_reg w0"
  using assms
  by (auto simp: utcpublished_body_def computes_def utc_of_log_def utcnow_def
      split: sum.splits option.splits prod.splits)

lemma Post_utcpublished_step:
  assumes "Post_utcpublished e p w = (Inr v, w')"
  shows "tags_reg w' = tags_reg w"
    and "memo w' = (memo w)((Utcpublished, PostObj p) \<mapsto> v)"
    and "memo w (Utcpublished, PostObj p) = Some v \<or>
         memo w (Utcpublished, PostObj p) = None \<and> (\<exists>t. v = VTime t)"
proof -
  let ?k = "(Utcpublished, PostObj p)"
  from assms have "cached Utcpublished (PostObj p) (utcpublished_body e p) w = (Inr v, w')"
    by (simp add: Post_utcpublished_def)
  then consider (hit) "memo w ?k = Some v" "w' = w"
    | (miss) w1 where "memo w ?k = None" "utcpublished_body e p w = (Inr v, w1)"
        "w' = w1\<lparr>memo := (memo w1)(?k \<mapsto> v)\<rparr>"
    using cached_step by blast
  then have "tags_reg w' = tags_reg w \<and> memo w' = (memo w)(?k \<mapsto> v) \<and>
      (memo w ?k = Some v \<or> memo w ?k = None \<and> (\<exists>t. v = VTime t))"
  proof cases
    case hit
    then show ?thesis by (auto simp: fun_upd_idem)
  next
    case miss
    from utcpublished_body_step [OF miss(2)] miss(1,3) show ?thesis by simp
  qed
  then show "tags_reg w' = tags_reg w" and "memo w' = (memo w)(?k \<mapsto> v)"
    and "memo w ?k = Some v \<or> memo w ?k = None \<and> (\<exists>t. v = VTime t)"
    by blast+
qed

text \<open>
  What an evaluation of sort keys does to the state: the registry of tags stays, the
  caches only gain entries, and the entries stay well typed.
\<close>

definition grow :: "world \<Rightarrow> world \<Rightarrow> bool" where
  "grow w w' \<longleftrightarrow>
     tags_reg w' = tags_reg w \<and> memo_le w w' \<and> (memo_typed w \<longrightarrow> memo_typed w')"

lemma grow_refl [simp]: "grow w w"
  by (simp add: grow_def)

lemma grow_trans: "grow w w1 \<Longrightarrow> grow w1 w2 \<Longrightarrow> grow w w2"
  unfolding grow_def using memo_le_trans by auto

lemma post_only_grow: "post_only w w' \<Longrightarrow> grow w w'"
  by (simp add: grow_def post_only_def memo_le_def memo_typed_def)

lemma grow_update_post [simp]: "grow w (update_post p f w') \<longleftrightarrow> grow w w'"
  by (simp add: grow_def memo_le_def memo_typed_def)

lemma post_key_step:
  assumes "post_key e p w = (Inr k, w1)" and "memo_typed w"
  shows "grow w w1 \<and> memo w1 (Utcpublished, PostObj p) = Some (VTime k)"
proof -
  from assms(1) obtain v where c: "Post_utcpublished e p w = (Inr v, w1)" and k: "k = time_of v"
    by (auto simp: post_key_def split: prod.splits sum.splits)
  note s = Post_utcpublished_step [OF c]
  from s(3) assms(2) obtain t where v: "v = VTime t"
    by (auto simp: memo_typed_def)
  have le: "memo_le w w1" using s(2,3) by (auto simp: memo_le_def)
  have "memo_typed w1" using assms(2) s(1,2) v by (auto simp: memo_typed_def)
  with le s(1) have "grow w w1" by (simp add: grow_def)
  moreover have "memo w1 (Utcpublished, PostObj p) = Some (VTime k)"
    using s(2) v k by simp
  ultimately show ?thesis by simp
qed

lemma Tag_num_posts_step:
  assumes "Tag_num_posts t w = (Inr v, w1)" and "memo_typed w"
  shows "grow w w1 \<and> posts_reg w1 = posts_reg w \<and>
         (\<exists>g. tags_reg w t = Some g \<and> v = VInt (int (length (tag_posts g)))) \<and>
         memo w1 (Num_posts, TagObj t) = Some v"
proof -
  let ?k = "(Num_posts, TagObj t)"
  let ?w0 = "w\<lparr>computed := computed w @ [?k]\<rparr>"
  from assms(1) have "cached Num_posts (TagObj t) (num_posts_body t) w = (Inr v, w1)"
    by (simp add: Tag_num_posts_def)
  then consider (hit) "memo w ?k = Some v" "w1 = w"
    | (miss) w0 where "memo w ?k = None" "num_posts_body t w = (Inr v, w0)"
        "w1 = w0\<lparr>memo := (memo w0)(?k \<mapsto> v)\<rparr>"
    using cached_step by blast
  then show ?thesis
  proof cases
    case hit
    with assms(2) show ?thesis by (auto simp: memo_typed_def)
  next
    case miss
    from miss(2) obtain g where g: "tags_reg w t = Some g"
      and v: "v = VInt (int (length (tag_posts g)))" and w0: "w0 = ?w0"
      by (auto simp: num_posts_body_def computes_def get_tag_def split: option.splits)
    have le: "memo_le w w1" using miss(1,3) w0 by (auto simp: memo_le_def)
    have tr: "tags_reg w1 = tags_reg w" using miss(3) w0 by simp
    have "memo_typed w1" using assms(2) miss(3) w0 g v by (auto simp: memo_typed_def)
    with le tr have "grow w w1" by (simp add: grow_def)
    then show ?thesis using g v miss(3) w0 by simp
  qed
qed

lemma Tag_name_method_step:
  assumes "Tag_name_method t w = (Inr v, w1)" and "memo_typed w"
  shows "grow w w1 \<and> posts_reg w1 = posts_reg w \<and> (\<exists>s. v = VStr s) \<and>
         memo w1 (Name, TagObj t) = Some v"
proof -
  let ?k = "(Name, TagObj t)"
  let ?w0 = "w\<lparr>computed := computed w @ [?k]\<rparr>"
  from assms(1) have "cached Name (TagObj t) (tag_name_body t) w = (Inr v, w1)"
    by (simp add: Tag_name_method_def)
  then consider (hit) "memo w ?k = Some v" "w1 = w"
    | (miss) w0 where "memo w ?k = None" "tag_name_body t w = (Inr v, w0)"
        "w1 = w0\<lparr>memo := (memo w0)(?k \<mapsto> v)\<rparr>"
    using cached_step by blast
  then show ?thesis
  proof cases
    case hit
    with assms(2) show ?thesis by (auto simp: memo_typed_def)
  next
    case miss
    from miss(2) obtain g where g: "tags_reg w t = Some g"
      and m: "map_sum id VStr (Tag_name (tag_path g)) = Inr v" and w0: "w0 = ?w0"
      by (auto simp: tag_name_body_def computes_def get_tag_def split: option.splits sum.splits)
    from m obtain s where v: "v = VStr s" by (cases "Tag_name (tag_path g)") auto
    have le: "memo_le w w1" using miss(1,3) w0 by (auto simp: memo_le_def)
    have tr: "tags_reg w1 = tags_reg w" using miss(3) w0 by simp
    have "memo_typed w1" using assms(2) miss(3) w0 v by (auto simp: memo_typed_def)
    with le tr have "grow w w1" by (simp add: grow_def)
    then show ?thesis using v miss(3) w0 by simp
  qed
qed

lemma tag_key_step:
  assumes "tag_key t w = (Inr k, w2)" and "memo_typed w"
  shows "grow w w2 \<and> posts_reg w2 = posts_reg w \<and>
         (\<exists>g. tags_reg w t = Some g \<and> fst k = - int (length (tag_posts g))) \<and>
         memo w2 (Num_posts, TagObj t) = Some (VInt (- fst k)) \<and>
         memo w2 (Name, TagObj t) = Some (VStr (snd k))"
proof -
  from assms(1) obtain n w1 s where n: "Tag_num_posts t w = (Inr n, w1)"
    and s: "Tag_name_method t w1 = (Inr s, w2)" and k: "k = (- int_of n, str_of s)"
    by (auto simp: tag_key_def split: prod.splits sum.splits)
  note a = Tag_num_posts_step [OF n assms(2)]
  then have t1: "memo_typed w1" using assms(2) by (simp add: grow_def)
  note b = Tag_name_method_step [OF s t1]
  from a b have g: "grow w w2" using grow_trans by blast
  from a obtain g0 where g0: "tags_reg w t = Some g0" "n = VInt (int (length (tag_posts g0)))"
    by blast
  from b obtain s0 where s0: "s = VStr s0" by blast
  have "memo w2 (Num_posts, TagObj t) = Some n"
    using a b by (auto simp: grow_def memo_le_def)
  then show ?thesis using g a b g0 s0 k by simp
qed

lemma eval_keys_grow:
  assumes step: "\<And>x w k w1. f x w = (Inr k, w1) \<Longrightarrow> memo_typed w \<Longrightarrow> grow w w1 \<and> Q w1 k x"
    and mono: "\<And>w w' k x. Q w k x \<Longrightarrow> grow w w' \<Longrightarrow> Q w' k x"
    and run: "eval_keys f xs w = (Inr keyed, w')"
    and typed: "memo_typed w"
  shows "grow w w' \<and> map snd keyed = xs \<and> (\<forall>(k, x) \<in> set keyed. Q w' k x)"
  using run typed
proof (induction xs arbitrary: w keyed)
  case Nil
  then show ?case by simp
next
  case (Cons x xs)
  from Cons.prems(1) obtain k w1 ks where fx: "f x w = (Inr k, w1)"
    and rest: "eval_keys f xs w1 = (Inr ks, w')" and keyed: "keyed = (k, x) # ks"
    by (auto split: prod.splits sum.splits)
  from step [OF fx Cons.prems(2)] have g1: "grow w w1" and q1: "Q w1 k x" by simp_all
  from g1 Cons.prems(2) have t1: "memo_typed w1" by (simp add: grow_def)
  from Cons.IH [OF rest t1] have g2: "grow w1 w'" and m: "map snd ks = xs"
    and qs: "\<forall>(k, x) \<in> set ks. Q w' k x" by simp_all
  from q1 g2 have "Q w' k x" by (rule mono)
  with g1 g2 m qs keyed show ?case using grow_trans by auto
qed

subsection \<open>Sorted results\<close>

lemma length_py_sorted_reverse [simp]: "length (py_sorted_reverse keyed) = length keyed"
  by (simp add: py_sorted_reverse_def)

lemma desc_py_sorted_reverse:
  assumes "\<forall>(k, p) \<in> set keyed. memo w (Utcpublished, PostObj p) = Some (VTime k)"
  shows "desc w (py_sorted_reverse keyed)"
proof -
  let ?xs = "rev (sort_key fst (rev keyed))"
  have set: "set ?xs = set keyed" by simp
  have "map (\<lambda>p. memo w (Utcpublished, PostObj p)) (map snd ?xs)
          = map (\<lambda>t. Some (VTime t)) (map fst ?xs)"
    unfolding map_map
  proof (rule map_cong [OF refl])
    fix x assume "x \<in> set ?xs"
    then have "x \<in> set keyed" using set by blast
    with assms show "((\<lambda>p. memo w (Utcpublished, PostObj p)) \<circ> snd) x
                       = ((\<lambda>t. Some (VTime t)) \<circ> fst) x"
      by (cases x) auto
  qed
  moreover have "sorted (rev (map fst ?xs))"
    by (simp add: rev_map [symmetric])
  ultimately show ?thesis
    unfolding desc_def py_sorted_reverse_def by blast
qed

text \<open>
  A list of tags in the order of the keys \<open>(-count, name)\<close> of the cached counts
  and names.
\<close>

definition by_count_and_name :: "world \<Rightarrow> path list \<Rightarrow> bool" where
  "by_count_and_name w ts \<longleftrightarrow>
     (\<exists>ks. map (\<lambda>t. (memo w (Num_posts, TagObj t), memo w (Name, TagObj t))) ts
             = map (\<lambda>(n, s). (Some (VInt n), Some (VStr s))) ks \<and>
           sorted (map (\<lambda>(n, s). (- n, s)) ks))"

lemma by_count_and_name_py_sorted:
  assumes "\<forall>(k, t) \<in> set keyed.
             memo w (Num_posts, TagObj t) = Some (VInt (- fst k)) \<and>
             memo w (Name, TagObj t) = Some (VStr (snd k))"
  shows "by_count_and_name w (py_sorted (keyed :: ((int \<times> string) \<times> path) list))"
proof -
  let ?xs = "sort_key fst keyed"
  let ?ks = "map (\<lambda>(k, t). (- fst k, snd k)) ?xs"
  have set: "set ?xs = set keyed" by simp
  have "map (\<lambda>t. (memo w (Num_posts, TagObj t), memo w (Name, TagObj t))) (map snd ?xs)
          = map (\<lambda>(n, s). (Some (VInt n), Some (VStr s))) ?ks"
    unfolding map_map
  proof (rule map_cong [OF refl])
    fix x assume "x \<in> set ?xs"
    then have "x \<in> set keyed" using set by blast
    with assms show "((\<lambda>t. (memo w (Num_posts, TagObj t), memo w (Name, TagObj t))) \<circ> snd) x
                       = ((\<lambda>(n, s). (Some (VInt n), Some (VStr s))) \<circ> (\<lambda>(k, t). (- fst k, snd k))) x"
      by (cases x) auto
  qed
  moreover have eq: "map (\<lambda>(n, s). (- n, s)) ?ks = map fst ?xs"
    by (simp add: case_prod_beta)
  have "sorted (map (\<lambda>(n, s). (- n, s)) ?ks)"
    unfolding eq by (rule sorted_sort_key)
  ultimately show ?thesis
    unfolding by_count_and_name_def py_sorted_def by blast
qed

subsection \<open>The invariant of the registries\<close>

definition Inv :: "world \<Rightarrow> bool" where
  "Inv w \<longleftrightarrow> memo_typed w \<and> tags_sorted_except {} w"

lemma Inv_start: "Inv start"
  by (simp add: Inv_def memo_typed_def tags_sorted_except_def start_def)

lemma grow_Inv: "grow w w' \<Longrightarrow> Inv w \<Longrightarrow> Inv w'"
  unfolding Inv_def grow_def using tags_sorted_except_step by blast

lemma grow_effects [simp]: "grow w (w'\<lparr>effects := x\<rparr>) \<longleftrightarrow> grow w w'"
  by (simp add: grow_def memo_le_def memo_typed_def)

lemma sort_post_tags_grow:
  "sort_post_tags ps w = (Inr (), w') \<Longrightarrow> memo_typed w \<Longrightarrow> grow w w'"
proof (induction ps arbitrary: w)
  case Nil
  then show ?case by simp
next
  case (Cons p ps)
  from Cons.prems(1) obtain post keyed w1 where
    k: "eval_keys tag_key (post_tags (post :: post)) w = (Inr keyed, w1)"
    and r: "sort_post_tags ps (update_post p (\<lambda>s. s\<lparr>post_tags := py_sorted keyed\<rparr>) w1) = (Inr (), w')"
    by (auto split: prod.splits sum.splits)
  have g1: "grow w w1"
    using eval_keys_grow [where Q = "\<lambda>w k x. True", OF _ _ k Cons.prems(2)] tag_key_step
    by blast
  let ?w2 = "update_post p (\<lambda>s. s\<lparr>post_tags := py_sorted keyed\<rparr>) w1"
  from g1 have g2: "grow w ?w2" by simp
  with Cons.prems(2) have "memo_typed ?w2" by (simp add: grow_def)
  with Cons.IH [OF r] have "grow ?w2 w'" by simp
  with g2 show ?case by (rule grow_trans)
qed

lemma prepare_output_dir_grow:
  "prepare_output_dir e t w = (Inr (), w') \<Longrightarrow> memo_typed w \<Longrightarrow> grow w w'"
proof -
  assume a: "prepare_output_dir e t w = (Inr (), w')" and ty: "memo_typed w"
  from a obtain n w1 where n: "Tag_name_method t w = (Inr n, w1)"
    by (auto simp: prepare_output_dir_def split: prod.splits sum.splits)
  from Tag_name_method_step [OF n ty] have g: "grow w w1" by simp
  from a n have "memo w' = memo w1 \<and> tags_reg w' = tags_reg w1"
    by (auto simp: prepare_output_dir_def Let_def split: if_splits option.splits sum.splits)
  then have "grow w1 w'" by (simp add: grow_def memo_le_def memo_typed_def)
  with g show ?thesis by (rule grow_trans)
qed

lemma discover_frame:
  "discover e t found w = (Inr (), w') \<Longrightarrow>
     memo w' = memo w \<and> (\<forall>t'. t' \<noteq> t \<longrightarrow> tags_reg w' t' = tags_reg w t')"
proof (induction found arbitrary: w)
  case Nil
  then show ?case by simp
next
  case (Cons f found)
  from Cons.prems obtain resolved where res: "resolve e f = Inr resolved"
    by (auto split: sum.splits)
  show ?case
  proof (cases "fs e resolved = Some Dir \<or> EXTS (path_suffix resolved) = None")
    case True
    with Cons.prems res have "discover e t found w = (Inr (), w')"
      by (auto split: option.splits)
    then show ?thesis by (rule Cons.IH)
  next
    case False
    then obtain c where c: "EXTS (path_suffix resolved) = Some c" and nd: "fs e resolved \<noteq> Some Dir"
      by auto
    from Cons.prems res c nd obtain w1 where con: "construct e c resolved w = (Inr (), w1)"
      and rest: "discover e t found
                   (update_post resolved (\<lambda>s. s\<lparr>post_tags := post_tags s @ [t]\<rparr>)
                      (update_tag t (\<lambda>g. g\<lparr>tag_posts := tag_posts g @ [resolved]\<rparr>) w1)) = (Inr (), w')"
      by (auto split: prod.splits sum.splits)
    from construct_post_only [OF con] have po: "memo w1 = memo w" "tags_reg w1 = tags_reg w"
      by (simp_all add: post_only_def)
    from Cons.IH [OF rest] po show ?thesis
      by (simp add: update_tag_tags_reg)
  qed
qed

lemma Tag_init_Inv:
  assumes run: "Tag_init e t w = (Inr (), w')" and inv: "Inv w"
  shows "Inv w'"
proof (cases "tags_reg w t")
  case (Some g)
  with run inv show ?thesis by (simp add: Tag_init_def)
next
  case None
  from inv have ty: "memo_typed w" and so: "tags_sorted_except {} w" by (simp_all add: Inv_def)
  let ?w1 = "w\<lparr>tags_reg := (tags_reg w)(t \<mapsto> \<lparr>tag_path = t, tag_posts = []\<rparr>)\<rparr>"
  from run None obtain w2 where d: "discover e t (glob e t) ?w1 = (Inr (), w2)"
    by (auto simp: Tag_init_def split: prod.splits sum.splits)
  from discover_frame [OF d] have m2: "memo w2 = memo w"
    and t2: "\<And>t'. t' \<noteq> t \<Longrightarrow> tags_reg w2 t' = tags_reg w t'"
    by simp_all
  from run None d obtain self keyed w3 where s: "tags_reg w2 t = Some self"
    and k: "eval_keys (post_key e) (tag_posts self) w2 = (Inr keyed, w3)"
    by (auto simp: Tag_init_def get_tag_def split: prod.splits sum.splits option.splits)
  let ?w3 = "update_tag t (\<lambda>g. g\<lparr>tag_posts := py_sorted_reverse keyed\<rparr>) w3"
  from run None d s k obtain w4 where sp: "sort_post_tags (py_sorted_reverse keyed) ?w3 = (Inr (), w4)"
    and po: "prepare_output_dir e t w4 = (Inr (), w')"
    by (auto simp: Tag_init_def get_tag_def split: prod.splits sum.splits option.splits)
  have ty2: "memo_typed w2"
    unfolding memo_typed_def
  proof (intro conjI allI impI)
    fix p v assume "memo w2 (Utcpublished, PostObj p) = Some v"
    with ty m2 show "\<exists>t. v = VTime t" by (simp add: memo_typed_def)
  next
    fix t' v assume "memo w2 (Name, TagObj t') = Some v"
    with ty m2 show "\<exists>s. v = VStr s" by (simp add: memo_typed_def)
  next
    fix t' v assume "memo w2 (Num_posts, TagObj t') = Some v"
    then have "memo w (Num_posts, TagObj t') = Some v" using m2 by simp
    moreover from ty have "\<forall>t v. memo w (Num_posts, TagObj t) = Some v \<longrightarrow>
        (\<exists>g. tags_reg w t = Some g \<and> v = VInt (int (length (tag_posts g))))"
      by (simp add: memo_typed_def)
    ultimately obtain g where g: "tags_reg w t' = Some g" "v = VInt (int (length (tag_posts g)))"
      by blast
    with None have "t' \<noteq> t" by auto
    with t2 g show "\<exists>g. tags_reg w2 t' = Some g \<and> v = VInt (int (length (tag_posts g)))"
      by simp
  qed
  have so2: "tags_sorted_except {t} w2"
    using so m2 t2 by (simp add: tags_sorted_except_def desc_def)
  have ev: "grow w2 w3 \<and> map snd keyed = tag_posts self \<and>
      (\<forall>(k, p) \<in> set keyed. memo w3 (Utcpublished, PostObj p) = Some (VTime k))"
  proof (rule eval_keys_grow [OF _ _ k ty2])
    fix x w k w1 assume "post_key e x w = (Inr k, w1)" "memo_typed w"
    then show "grow w w1 \<and> memo w1 (Utcpublished, PostObj x) = Some (VTime k)"
      by (rule post_key_step)
  next
    fix w w' :: world and k :: int and x
    assume "memo w (Utcpublished, PostObj x) = Some (VTime k)" "grow w w'"
    then show "memo w' (Utcpublished, PostObj x) = Some (VTime k)"
      by (simp add: grow_def memo_le_def)
  qed
  then have g3: "grow w2 w3" and len: "length keyed = length (tag_posts self)"
    and q: "\<forall>(k, p) \<in> set keyed. memo w3 (Utcpublished, PostObj p) = Some (VTime k)"
    by (simp_all, metis length_map)
  from g3 ty2 have ty3: "memo_typed w3" and r3: "tags_reg w3 = tags_reg w2"
    and le3: "memo_le w2 w3"
    by (simp_all add: grow_def)
  have r3': "tags_reg ?w3 = (tags_reg w2)(t \<mapsto> self\<lparr>tag_posts := py_sorted_reverse keyed\<rparr>)"
    using r3 s by (simp add: update_tag_def)
  have ty3': "memo_typed ?w3"
    unfolding memo_typed_def
  proof (intro conjI allI impI)
    fix p v assume "memo ?w3 (Utcpublished, PostObj p) = Some v"
    with ty3 show "\<exists>t. v = VTime t" by (simp add: memo_typed_def)
  next
    fix t' v assume "memo ?w3 (Name, TagObj t') = Some v"
    with ty3 show "\<exists>s. v = VStr s" by (simp add: memo_typed_def)
  next
    fix t' v assume "memo ?w3 (Num_posts, TagObj t') = Some v"
    then have "memo w3 (Num_posts, TagObj t') = Some v" by simp
    moreover from ty3 have "\<forall>t v. memo w3 (Num_posts, TagObj t) = Some v \<longrightarrow>
        (\<exists>g. tags_reg w3 t = Some g \<and> v = VInt (int (length (tag_posts g))))"
      by (simp add: memo_typed_def)
    ultimately obtain g where g: "tags_reg w2 t' = Some g" "v = VInt (int (length (tag_posts g)))"
      using r3 by metis
    show "\<exists>g. tags_reg ?w3 t' = Some g \<and> v = VInt (int (length (tag_posts g)))"
      using g s len unfolding r3' by (cases "t' = t") simp_all
  qed
  have so3': "tags_sorted_except {} ?w3"
    unfolding tags_sorted_except_def
  proof (intro allI impI)
    fix t' g assume tg: "tags_reg ?w3 t' = Some g"
    show "desc ?w3 (tag_posts g)"
    proof (cases "t' = t")
      case True
      with tg r3' have "tag_posts g = py_sorted_reverse keyed" by auto
      moreover have "desc w3 (py_sorted_reverse keyed)"
        using q by (rule desc_py_sorted_reverse)
      ultimately show ?thesis by (simp add: desc_def)
    next
      case False
      with tg r3' have "tags_reg w2 t' = Some g" by simp
      with so2 False have "desc w2 (tag_posts g)" by (simp add: tags_sorted_except_def)
      with le3 have "desc w3 (tag_posts g)" using desc_memo_le by blast
      then show ?thesis by (simp add: desc_def)
    qed
  qed
  from ty3' so3' have i3: "Inv ?w3" by (simp add: Inv_def)
  from sort_post_tags_grow [OF sp ty3'] have g4: "grow ?w3 w4" .
  from g4 i3 have i4: "Inv w4" by (rule grow_Inv)
  then have "memo_typed w4" by (simp add: Inv_def)
  with po have "grow w4 w'" by (rule prepare_output_dir_grow)
  then show ?thesis using i4 by (rule grow_Inv)
qed

lemma collect_posts_post_only:
  "collect_posts e found posts w = (Inr ps, w') \<Longrightarrow> post_only w w'"
proof (induction found arbitrary: posts w)
  case Nil
  then show ?case by simp
next
  case (Cons f found)
  show ?case
  proof (cases "fs e f = Some Dir \<or> EXTS (path_suffix f) = None")
    case True
    with Cons.prems have "collect_posts e found posts w = (Inr ps, w')"
      by (auto split: option.splits)
    then show ?thesis by (rule Cons.IH)
  next
    case False
    then obtain c where c: "EXTS (path_suffix f) = Some c" and nd: "fs e f \<noteq> Some Dir"
      by auto
    from Cons.prems c nd obtain w1 where con: "construct e c f w = (Inr (), w1)"
      and rest: "collect_posts e found (posts @ [f]) w1 = (Inr ps, w')"
      by (auto split: prod.splits sum.splits)
    from construct_post_only [OF con] Cons.IH [OF rest] show ?thesis
      by (rule post_only_trans)
  qed
qed

lemma collect_tags_Inv:
  "collect_tags e found tags w = (Inr ts, w') \<Longrightarrow> Inv w \<Longrightarrow> Inv w'"
proof (induction found arbitrary: tags w)
  case Nil
  then show ?case by simp
next
  case (Cons f found)
  show ?case
  proof (cases "fs e f = Some Dir")
    case False
    with Cons.prems(1) have "collect_tags e found tags w = (Inr ts, w')" by simp
    then show ?thesis using Cons.prems(2) by (rule Cons.IH)
  next
    case True
    with Cons.prems(1) obtain w1 where ti: "Tag_init e f w = (Inr (), w1)"
      and rest: "collect_tags e found (tags @ [f]) w1 = (Inr ts, w')"
      by (auto split: prod.splits sum.splits)
    from ti Cons.prems(2) have "Inv w1" by (rule Tag_init_Inv)
    with rest show ?thesis by (rule Cons.IH)
  qed
qed

subsection \<open>The orders after Index.__init__\<close>

lemma map_eq_lift:
  assumes "map f xs = map g ys" and "\<And>x y. f x = g y \<Longrightarrow> f' x = g' y"
  shows "map f' xs = map g' ys"
proof -
  from assms(1) have "list_all2 (\<lambda>x y. f x = g y) xs ys"
    by (simp add: list_all2_conv_all_nth map_equality_iff)
  then have "list_all2 (\<lambda>x y. f' x = g' y) xs ys"
    by (rule list_all2_mono) (rule assms(2))
  then show ?thesis
    by (simp add: list_all2_conv_all_nth map_equality_iff)
qed

lemma cached_hit: "memo w (a, self) = Some v \<Longrightarrow> cached a self body w = (Inr v, w)"
  by (simp add: cached_def)

text \<open>
  The orders as the methods report them in a state: what \<open>utcpublished\<close> returns
  along a list of posts descends, and what \<open>num_posts\<close> and \<open>name\<close> return along a
  list of tags ascends as keys \<open>(-count, name)\<close>.
\<close>

definition published_descending :: "env \<Rightarrow> world \<Rightarrow> path list \<Rightarrow> bool" where
  "published_descending e w ps \<longleftrightarrow>
     (\<exists>ts. map (\<lambda>p. fst (Post_utcpublished e p w)) ps = map (\<lambda>t. Inr (VTime t)) ts \<and>
           sorted (rev ts))"

definition count_then_name :: "world \<Rightarrow> path list \<Rightarrow> bool" where
  "count_then_name w ts \<longleftrightarrow>
     (\<exists>ks. map (\<lambda>t. (fst (Tag_num_posts t w), fst (Tag_name_method t w))) ts
             = map (\<lambda>(n, s). (Inr (VInt n), Inr (VStr s))) ks \<and>
           sorted (map (\<lambda>(n, s). (- n, s)) ks))"

lemma desc_published_descending:
  assumes "desc w ps"
  shows "published_descending e w ps"
proof -
  from assms obtain ts
    where m: "map (\<lambda>p. memo w (Utcpublished, PostObj p)) ps = map (\<lambda>t. Some (VTime t)) ts"
      and s: "sorted (rev ts)"
    by (auto simp: desc_def)
  from m have "map (\<lambda>p. fst (Post_utcpublished e p w)) ps = map (\<lambda>t. Inr (VTime t)) ts"
    by (rule map_eq_lift) (simp add: Post_utcpublished_def cached_hit)
  with s show ?thesis by (auto simp: published_descending_def)
qed

lemma by_count_and_name_count_then_name:
  assumes "by_count_and_name w ts"
  shows "count_then_name w ts"
proof -
  from assms obtain ks
    where m: "map (\<lambda>t. (memo w (Num_posts, TagObj t), memo w (Name, TagObj t))) ts
                = map (\<lambda>(n, s). (Some (VInt n), Some (VStr s))) ks"
      and s: "sorted (map (\<lambda>(n, s). (- n, s)) ks)"
    by (auto simp: by_count_and_name_def)
  from m have "map (\<lambda>t. (fst (Tag_num_posts t w), fst (Tag_name_method t w))) ts
                 = map (\<lambda>(n, s). (Inr (VInt n), Inr (VStr s))) ks"
    by (rule map_eq_lift)
      (auto simp: Tag_num_posts_def Tag_name_method_def cached_hit split: prod.splits)
  with s show ?thesis by (auto simp: count_then_name_def)
qed

lemma Index_init_orders:
  assumes run: "Index_init e w0 = (Inr idx, w)" and inv: "Inv w0"
  shows "Inv w" and "desc w (index_posts idx)" and "by_count_and_name w (index_tags idx)"
    and "\<forall>t \<in> set (index_tags idx). memo w (Num_posts, TagObj t) \<noteq> None"
proof -
  from run obtain posts w1 tags w2 keyed_tags w3 keyed_posts
    where cp: "collect_posts e (glob e POSTDIR) [] w0 = (Inr posts, w1)"
      and ct: "collect_tags e (glob e TAGDIR) [] w1 = (Inr tags, w2)"
      and kt: "eval_keys tag_key tags w2 = (Inr keyed_tags, w3)"
      and kp: "eval_keys (post_key e) posts w3 = (Inr keyed_posts, w)"
      and idx: "idx = \<lparr>index_posts = py_sorted_reverse keyed_posts,
                       index_tags = py_sorted keyed_tags\<rparr>"
    by (auto simp: Index_init_def split: prod.splits sum.splits)
  from collect_posts_post_only [OF cp] have "grow w0 w1" by (rule post_only_grow)
  then have "Inv w1" using inv by (rule grow_Inv)
  with ct have i2: "Inv w2" by (rule collect_tags_Inv)
  then have ty2: "memo_typed w2" by (simp add: Inv_def)
  have et: "grow w2 w3 \<and> map snd keyed_tags = tags \<and>
      (\<forall>(k, t) \<in> set keyed_tags.
         memo w3 (Num_posts, TagObj t) = Some (VInt (- fst k)) \<and>
         memo w3 (Name, TagObj t) = Some (VStr (snd k)))"
  proof (rule eval_keys_grow [OF _ _ kt ty2])
    fix x w k w1 assume "tag_key x w = (Inr k, w1)" "memo_typed w"
    from tag_key_step [OF this]
    show "grow w w1 \<and> memo w1 (Num_posts, TagObj x) = Some (VInt (- fst k)) \<and>
          memo w1 (Name, TagObj x) = Some (VStr (snd k))"
      by simp
  next
    fix w w' :: world and k :: "int \<times> string" and x
    assume "memo w (Num_posts, TagObj x) = Some (VInt (- fst k)) \<and>
            memo w (Name, TagObj x) = Some (VStr (snd k))" "grow w w'"
    then show "memo w' (Num_posts, TagObj x) = Some (VInt (- fst k)) \<and>
               memo w' (Name, TagObj x) = Some (VStr (snd k))"
      by (simp add: grow_def memo_le_def)
  qed
  then have g3: "grow w2 w3" by simp
  from g3 i2 have i3: "Inv w3" by (rule grow_Inv)
  then have ty3: "memo_typed w3" by (simp add: Inv_def)
  have ep: "grow w3 w \<and> map snd keyed_posts = posts \<and>
      (\<forall>(k, p) \<in> set keyed_posts. memo w (Utcpublished, PostObj p) = Some (VTime k))"
  proof (rule eval_keys_grow [OF _ _ kp ty3])
    fix x w k w1 assume "post_key e x w = (Inr k, w1)" "memo_typed w"
    then show "grow w w1 \<and> memo w1 (Utcpublished, PostObj x) = Some (VTime k)"
      by (rule post_key_step)
  next
    fix w w' :: world and k :: int and x
    assume "memo w (Utcpublished, PostObj x) = Some (VTime k)" "grow w w'"
    then show "memo w' (Utcpublished, PostObj x) = Some (VTime k)"
      by (simp add: grow_def memo_le_def)
  qed
  then have g4: "grow w3 w" by simp
  from g4 i3 show "Inv w" by (rule grow_Inv)
  from ep have "desc w (py_sorted_reverse keyed_posts)"
    using desc_py_sorted_reverse by blast
  then show "desc w (index_posts idx)" by (simp add: idx)
  have qt: "\<forall>(k, t) \<in> set keyed_tags.
         memo w (Num_posts, TagObj t) = Some (VInt (- fst k)) \<and>
         memo w (Name, TagObj t) = Some (VStr (snd k))"
    using et g4 by (auto simp: grow_def memo_le_def)
  then have "by_count_and_name w (py_sorted keyed_tags)"
    by (rule by_count_and_name_py_sorted)
  then show "by_count_and_name w (index_tags idx)" by (simp add: idx)
  show "\<forall>t \<in> set (index_tags idx). memo w (Num_posts, TagObj t) \<noteq> None"
    using qt by (auto simp: idx py_sorted_def)
qed

text \<open>
  C2. When \<open>Index()\<close> returns in a fresh process, the members of every registered tag
  are in descending order of the publish time, the tags of the index are ordered by
  descending member count and then ascending name (and the count is the length of the
  tag's member list), and the posts of the index are in descending order of the
  publish time.
\<close>

theorem Index_init_sorted:
  assumes "Index_init e start = (Inr idx, w)"
  shows "(\<forall>t g. tags_reg w t = Some g \<longrightarrow> published_descending e w (tag_posts g)) \<and>
         count_then_name w (index_tags idx) \<and>
         (\<forall>t \<in> set (index_tags idx). \<exists>g. tags_reg w t = Some g \<and>
            fst (Tag_num_posts t w) = Inr (VInt (int (length (tag_posts g))))) \<and>
         published_descending e w (index_posts idx)"
proof -
  note o = Index_init_orders [OF assms Inv_start]
  from o(1) have ty: "memo_typed w" and so: "tags_sorted_except {} w"
    by (simp_all add: Inv_def)
  have a: "\<forall>t g. tags_reg w t = Some g \<longrightarrow> published_descending e w (tag_posts g)"
    using so desc_published_descending by (simp add: tags_sorted_except_def)
  have b: "count_then_name w (index_tags idx)"
    using o(3) by (rule by_count_and_name_count_then_name)
  have c: "\<forall>t \<in> set (index_tags idx). \<exists>g. tags_reg w t = Some g \<and>
            fst (Tag_num_posts t w) = Inr (VInt (int (length (tag_posts g))))"
  proof
    fix t assume "t \<in> set (index_tags idx)"
    with o(4) obtain v where v: "memo w (Num_posts, TagObj t) = Some v" by auto
    moreover from ty have "\<forall>t v. memo w (Num_posts, TagObj t) = Some v \<longrightarrow>
        (\<exists>g. tags_reg w t = Some g \<and> v = VInt (int (length (tag_posts g))))"
      by (simp add: memo_typed_def)
    ultimately obtain g where "tags_reg w t = Some g" "v = VInt (int (length (tag_posts g)))"
      by blast
    with v show "\<exists>g. tags_reg w t = Some g \<and>
            fst (Tag_num_posts t w) = Inr (VInt (int (length (tag_posts g))))"
      by (simp add: Tag_num_posts_def cached_hit)
  qed
  have d: "published_descending e w (index_posts idx)"
    using o(2) by (rule desc_published_descending)
  from a b c d show ?thesis by blast
qed

definition blog_index :: index where
  "blog_index = \<lparr>index_posts = [''posts/a.md'', ''posts/c.html'', ''posts/b.md''],
                 index_tags = [''tags/x'', ''tags/y'']\<rparr>"

lemma blog_Index_init: "fst (Index_init blog_env start) = Inr blog_index"
  by code_simp

theorem Index_init_sorted_witness:
  "fst (Index_init blog_env start) = Inr blog_index \<and>
   published_descending blog_env (snd (Index_init blog_env start))
     [''posts/a.md'', ''posts/c.html'', ''posts/b.md''] \<and>
   count_then_name (snd (Index_init blog_env start)) [''tags/x'', ''tags/y'']"
proof -
  have "Index_init blog_env start = (Inr blog_index, snd (Index_init blog_env start))"
    using blog_Index_init by (simp add: prod_eq_iff)
  from Index_init_sorted [OF this] show ?thesis
    using blog_Index_init by (simp add: blog_index_def)
qed

section \<open>Rendering\<close>

subsection \<open>Templates\<close>

text \<open>
  \<^verbatim>\<open>
    def get_template(name: str) -> Template:
        path = TEMPLATEDIR/name
        if not os.path.exists(path):
            return Template("")
        with open(path, "r") as file:
            content = file.read()
        template = Environment(loader=FileSystemLoader(TEMPLATEDIR)).from_string(content)
        return template
  \<close>
  A template is its source; compiling it may raise. Rendering is Jinja's, and Jinja
  renders the empty source to the empty string.
\<close>

definition get_template :: "env \<Rightarrow> string \<Rightarrow> py_error + template" where
  "get_template e name =
     (case fs e (path_join TEMPLATEDIR name) of
        None \<Rightarrow> Inr (Template [])
      | Some Dir \<Rightarrow> Inl (IsADirectoryError (path_join TEMPLATEDIR name))
      | Some (File content) \<Rightarrow>
          (case jinja_compile e content of
             Some err \<Rightarrow> Inl err
           | None \<Rightarrow> Inr (Template content)))"

fun render_template :: "env \<Rightarrow> template \<Rightarrow> render_ctx \<Rightarrow> py_error + string" where
  "render_template e (Template src) ctx = (if src = [] then Inr [] else jinja e src ctx)"

text \<open>
  The templates that the classes load when the module is loaded
  (\<^verbatim>\<open>_template: Template = get_template("post.html")\<close> and the like).
\<close>

record templates =
  post_template :: template
  tag_template :: template
  index_template :: template
  xml_template :: template
  sitemap_template :: template

definition load_templates :: "env \<Rightarrow> py_error + templates" where
  "load_templates e =
     (case get_template e ''post.html'' of Inl err \<Rightarrow> Inl err | Inr p \<Rightarrow>
      (case get_template e ''tag.html'' of Inl err \<Rightarrow> Inl err | Inr t \<Rightarrow>
      (case get_template e ''index.html'' of Inl err \<Rightarrow> Inl err | Inr i \<Rightarrow>
      (case get_template e ''index.xml'' of Inl err \<Rightarrow> Inl err | Inr x \<Rightarrow>
      (case get_template e ''sitemap.xml'' of Inl err \<Rightarrow> Inl err | Inr s \<Rightarrow>
         Inr \<lparr>post_template = p, tag_template = t, index_template = i, xml_template = x,
              sitemap_template = s\<rparr>)))))"

definition no_args :: render_ctx where
  "no_args = \<lparr>page = None, with_index = False, with_tag = None, next_post = None,
              previous_post = None, newest_post = None, feature_flags = None, pages = [],
              date = None\<rparr>"

text \<open>A call of \<open>template.render\<close>, recorded before Jinja runs.\<close>

definition render_call :: "env \<Rightarrow> template \<Rightarrow> render_ctx \<Rightarrow> string run" where
  "render_call e t ctx w = (render_template e t ctx, w\<lparr>effects := effects w @ [Rendered t ctx]\<rparr>)"

text \<open>\<^verbatim>\<open>with open(filename, "w") as file: print(text, file=file)\<close>.\<close>

definition write_file :: "env \<Rightarrow> path \<Rightarrow> string \<Rightarrow> unit run" where
  "write_file e filename text w =
     (if can_write e filename
      then (Inr (), w\<lparr>effects := effects w @ [Written filename (text @ newline)]\<rparr>)
      else (Inl (OSError filename), w))"

definition print_line :: "string \<Rightarrow> world \<Rightarrow> world" where
  "print_line s w = w\<lparr>effects := effects w @ [Printed (s @ newline)]\<rparr>"

subsection \<open>Post.render\<close>

text \<open>
  \<^verbatim>\<open>
    def save_html(self, html, tag=None):
        if tag:
            filename = HTMLDIR/f"{tag.uri()}{self.uri()}"
        else:
            filename = HTMLDIR/self.uri()
        with open(filename, "w") as file:
            print(html, file=file)
  \<close>
\<close>

definition save_html :: "env \<Rightarrow> path \<Rightarrow> string \<Rightarrow> path option \<Rightarrow> unit run" where
  "save_html e p html tag w =
     (case tag of
        Some t \<Rightarrow>
          (case Tag_uri t w of
             (Inl err, w1) \<Rightarrow> (Inl err, w1)
           | (Inr tu, w1) \<Rightarrow>
               (case Post_uri p w1 of
                  (Inl err, w2) \<Rightarrow> (Inl err, w2)
                | (Inr u, w2) \<Rightarrow> write_file e (path_join HTMLDIR (str_of tu @ str_of u)) html w2))
      | None \<Rightarrow>
          (case Post_uri p w of
             (Inl err, w1) \<Rightarrow> (Inl err, w1)
           | (Inr u, w1) \<Rightarrow> write_file e (path_join HTMLDIR (str_of u)) html w1))"

text \<open>
  \<open>render\<close> of a post. A notebook or Markdown post passes its three flags and patches
  the rendered HTML (the three text patches are the function \<open>patch_html\<close> of the
  environment); an HTML post does neither.
  \<^verbatim>\<open>
    def render(self, index=None, tag=None, **kwargs):
        html = self._template.render(page=self, index=index, tag=tag, mathjax=self.mathjax,
                 vega=bool(self.vega_plots), plotly=bool(self.plotly_plots), **kwargs)
        html = self._patch_html_for_plotly(html)
        html = self._patch_html_for_vega(html)
        html = self._patch_js_license_in_html(html)
        self.save_html(html, tag=tag)
  \<close>
\<close>

definition post_ctx :: "post \<Rightarrow> path \<Rightarrow> bool \<Rightarrow> path option \<Rightarrow> path option \<Rightarrow> path option \<Rightarrow> render_ctx" where
  "post_ctx self p idx tag nxt prv =
     no_args\<lparr>page := Some (PostObj p), with_index := idx, with_tag := tag,
             next_post := nxt, previous_post := prv,
             feature_flags := (case cls self of
                                 HtmlPost \<Rightarrow> None
                               | _ \<Rightarrow> Some (mathjax self, vega_plots self \<noteq> [],
                                            plotly_plots self \<noteq> []))\<rparr>"

definition Post_render ::
  "env \<Rightarrow> templates \<Rightarrow> path \<Rightarrow> bool \<Rightarrow> path option \<Rightarrow> path option \<Rightarrow> path option \<Rightarrow> unit run" where
  "Post_render e T p idx tag nxt prv w =
     (case get_post w p of
        Inl err \<Rightarrow> (Inl err, w)
      | Inr self \<Rightarrow>
          (case render_call e (post_template T) (post_ctx self p idx tag nxt prv) w of
             (Inl err, w1) \<Rightarrow> (Inl err, w1)
           | (Inr html, w1) \<Rightarrow>
               (case (case cls self of HtmlPost \<Rightarrow> Inr html | _ \<Rightarrow> patch_html e self html) of
                  Inl err \<Rightarrow> (Inl err, w1)
                | Inr patched \<Rightarrow> save_html e p patched tag w1)))"

subsection \<open>The loop over the posts\<close>

text \<open>
  The same loop stands in \<open>Tag.render\<close> and in \<open>Index.render\<close>, which also prints
  the name of each post:
  \<^verbatim>\<open>
        num_posts = len(self.posts)
        for i, post in enumerate(self.posts):
            next_post = None if i==0 else self.posts[i-1]
            previous_post = None if i == num_posts-1 else self.posts[i+1]
            post.render(index=index, tag=self, next_post=next_post, previous_post=previous_post)
  \<close>
\<close>

definition neighbour :: "path list \<Rightarrow> bool \<Rightarrow> nat \<Rightarrow> py_error + path option" where
  "neighbour posts none i = (if none then Inr None else map_sum id Some (py_index posts i))"

fun render_posts ::
  "env \<Rightarrow> templates \<Rightarrow> bool \<Rightarrow> path option \<Rightarrow> bool \<Rightarrow> path list \<Rightarrow> (nat \<times> path) list \<Rightarrow> unit run" where
  "render_posts e T idx tag names posts [] w = (Inr (), w)"
| "render_posts e T idx tag names posts ((i, post) # rest) w =
     (case neighbour posts (i = 0) (i - 1) of
        Inl err \<Rightarrow> (Inl err, w)
      | Inr nxt \<Rightarrow>
          (case neighbour posts (int i = int (length posts) - 1) (i + 1) of
             Inl err \<Rightarrow> (Inl err, w)
           | Inr prv \<Rightarrow>
               (case (if names
                      then (case Post_name post w of
                              (Inl err, w1) \<Rightarrow> (Inl err, w1)
                            | (Inr n, w1) \<Rightarrow> (Inr (), print_line (str_of n) w1))
                      else (Inr (), w)) of
                  (Inl err, w1) \<Rightarrow> (Inl err, w1)
                | (Inr _, w1) \<Rightarrow>
                    (case Post_render e T post idx tag nxt prv w1 of
                       (Inl err, w2) \<Rightarrow> (Inl err, w2)
                     | (Inr _, w2) \<Rightarrow> render_posts e T idx tag names posts rest w2))))"

subsection \<open>Tag.render\<close>

text \<open>
  \<^verbatim>\<open>
    def render(self, index=None, **kwargs):
        html = self._template.render(page=self, index=index, tag=self,
                                     newest_post=self.posts[0], **kwargs)
        num_posts = len(self.posts)
        for i, post in enumerate(self.posts): ...
        with open(HTMLDIR/self.uri()/"index.html", "w") as file:
            print(html, file=file)
  \<close>
\<close>

definition Tag_render :: "env \<Rightarrow> templates \<Rightarrow> path \<Rightarrow> bool \<Rightarrow> unit run" where
  "Tag_render e T t idx w =
     (case get_tag w t of
        Inl err \<Rightarrow> (Inl err, w)
      | Inr self \<Rightarrow>
          (case py_index (tag_posts self) 0 of
             Inl err \<Rightarrow> (Inl err, w)
           | Inr newest \<Rightarrow>
               (case render_call e (tag_template T)
                       (no_args\<lparr>page := Some (TagObj t), with_index := idx, with_tag := Some t,
                                newest_post := Some newest\<rparr>) w of
                  (Inl err, w1) \<Rightarrow> (Inl err, w1)
                | (Inr html, w1) \<Rightarrow>
                    (case render_posts e T idx (Some t) False (tag_posts self)
                            (enumerate 0 (tag_posts self)) w1 of
                       (Inl err, w2) \<Rightarrow> (Inl err, w2)
                     | (Inr _, w2) \<Rightarrow>
                         (case Tag_uri t w2 of
                            (Inl err, w3) \<Rightarrow> (Inl err, w3)
                          | (Inr u, w3) \<Rightarrow>
                              write_file e
                                (path_join (path_join HTMLDIR (str_of u)) ''index.html'')
                                html w3)))))"

subsection \<open>Index.render\<close>

definition Index_uri :: "val run" where
  "Index_uri = cached Uri IndexObj (computes Uri IndexObj (\<lambda>w. (Inr (VStr ''index.html''), w)))"

definition bingverification :: string where
  "bingverification = ''BingSiteAuth.xml''"

definition googleverification :: string where
  "googleverification = ''googlefb30e5afe41cb0d2.html''"

definition yandexverification :: string where
  "yandexverification = ''yandex_d77fd905780b76f1.html''"

text \<open>\<^verbatim>\<open>get_template(name).render()\<close>, for the three verification documents.\<close>

definition verification_document :: "env \<Rightarrow> string \<Rightarrow> string run" where
  "verification_document e name w =
     (case get_template e name of
        Inl err \<Rightarrow> (Inl err, w)
      | Inr t \<Rightarrow> render_call e t no_args w)"

text \<open>
  \<^verbatim>\<open>
        for tag in self.tags:
            print(tag.name())
            tag.render(index=self)
  \<close>
\<close>

fun render_tags :: "env \<Rightarrow> templates \<Rightarrow> path list \<Rightarrow> unit run" where
  "render_tags e T [] w = (Inr (), w)"
| "render_tags e T (t # ts) w =
     (case Tag_name_method t w of
        (Inl err, w1) \<Rightarrow> (Inl err, w1)
      | (Inr n, w1) \<Rightarrow>
          (case Tag_render e T t True (print_line (str_of n) w1) of
             (Inl err, w2) \<Rightarrow> (Inl err, w2)
           | (Inr _, w2) \<Rightarrow> render_tags e T ts w2))"

text \<open>The six files written at the end.\<close>

fun write_files :: "env \<Rightarrow> (path \<times> string) list \<Rightarrow> unit run" where
  "write_files e [] w = (Inr (), w)"
| "write_files e ((filename, text) # rest) w =
     (case write_file e filename text w of
        (Inl err, w1) \<Rightarrow> (Inl err, w1)
      | (Inr _, w1) \<Rightarrow> write_files e rest w1)"

text \<open>
  \<^verbatim>\<open>
    def render(self, **kwargs):
        html = self._template.render(page=self, index=self, newest_post=self.posts[0], **kwargs)
        xml = self._xmltemplate.render(page=self, index=self, date=datetime.utcnow(), **kwargs)
        sitemap = self._sitemaptemplate.render(pages=[self, *self.posts, *self.tags])
        bingverification = get_template(self._bingverification).render()
        googleverification = get_template(self._googleverification).render()
        yandexverification = get_template(self._yandexverification).render()
        num_posts = len(self.posts)
        print("\nposts:\n------")
        for i, post in enumerate(self.posts): ...
        print("\ntags:\n-----")
        for tag in self.tags: ...
        with open(HTMLDIR/self.uri(), "w") as file:
            print(html, file=file)
        with open(f"{HTMLDIR/self.uri()[:-5]}.xml", "w") as file:
            print(xml, file=file)
        ...
  \<close>
\<close>

definition Index_render :: "env \<Rightarrow> templates \<Rightarrow> index \<Rightarrow> unit run" where
  "Index_render e T self w =
     (case py_index (index_posts self) 0 of
        Inl err \<Rightarrow> (Inl err, w)
      | Inr newest \<Rightarrow>
     (case render_call e (index_template T)
             (no_args\<lparr>page := Some IndexObj, with_index := True, newest_post := Some newest\<rparr>) w of
        (Inl err, w1) \<Rightarrow> (Inl err, w1)
      | (Inr html, w1) \<Rightarrow>
     (case utcnow e w1 of (now, w2) \<Rightarrow>
     (case render_call e (xml_template T)
             (no_args\<lparr>page := Some IndexObj, with_index := True, date := Some now\<rparr>) w2 of
        (Inl err, w3) \<Rightarrow> (Inl err, w3)
      | (Inr xml, w3) \<Rightarrow>
     (case render_call e (sitemap_template T)
             (no_args\<lparr>pages := IndexObj # map PostObj (index_posts self)
                                 @ map TagObj (index_tags self)\<rparr>) w3 of
        (Inl err, w4) \<Rightarrow> (Inl err, w4)
      | (Inr sitemap, w4) \<Rightarrow>
     (case verification_document e bingverification w4 of
        (Inl err, w5) \<Rightarrow> (Inl err, w5)
      | (Inr bing, w5) \<Rightarrow>
     (case verification_document e googleverification w5 of
        (Inl err, w6) \<Rightarrow> (Inl err, w6)
      | (Inr google, w6) \<Rightarrow>
     (case verification_document e yandexverification w6 of
        (Inl err, w7) \<Rightarrow> (Inl err, w7)
      | (Inr yandex, w7) \<Rightarrow>
     (case render_posts e T True None True (index_posts self) (enumerate 0 (index_posts self))
             (print_line (newline @ ''posts:'' @ newline @ ''------'') w7) of
        (Inl err, w8) \<Rightarrow> (Inl err, w8)
      | (Inr _, w8) \<Rightarrow>
     (case render_tags e T (index_tags self)
             (print_line (newline @ ''tags:'' @ newline @ ''-----'') w8) of
        (Inl err, w9) \<Rightarrow> (Inl err, w9)
      | (Inr _, w9) \<Rightarrow>
     (case Index_uri w9 of
        (Inl err, w10) \<Rightarrow> (Inl err, w10)
      | (Inr u, w10) \<Rightarrow>
          write_files e
            [(path_join HTMLDIR (str_of u), html),
             (path_join HTMLDIR (take (length (str_of u) - 5) (str_of u)) @ ''.xml'', xml),
             (path_join HTMLDIR ''sitemap.xml'', sitemap),
             (path_join HTMLDIR bingverification, bing),
             (path_join HTMLDIR googleverification, google),
             (path_join HTMLDIR yandexverification, yandex)] w10)))))))))))"


definition plain_templates :: templates where
  "plain_templates = \<lparr>post_template = Template ''post'', tag_template = Template ''tag'',
       index_template = Template ''index'', xml_template = Template ''xml'',
       sitemap_template = Template ''sitemap''\<rparr>"

subsection \<open>The calls of Post.render in a run\<close>

text \<open>
  Of a recorded template rendering whose page is a post: the tag it was rendered for
  (\<open>None\<close> at the level of the index), the post, and the two neighbours passed as
  \<open>next_post\<close> and \<open>previous_post\<close>.
\<close>

type_synonym post_call = "path option \<times> path \<times> path option \<times> path option"

fun post_call :: "effect \<Rightarrow> post_call list" where
  "post_call (Rendered t c) =
     (case page c of
        Some (PostObj p) \<Rightarrow> [(with_tag c, p, next_post c, previous_post c)]
      | _ \<Rightarrow> [])"
| "post_call _ = []"

definition post_calls :: "effect list \<Rightarrow> post_call list" where
  "post_calls es = concat (map post_call es)"

text \<open>
  The claim's rule for a list of posts: the post at position \<open>i\<close> with the post before
  it as next and the post after it as previous.
\<close>

definition call_at :: "path option \<Rightarrow> path list \<Rightarrow> nat \<Rightarrow> post_call" where
  "call_at tag posts i =
     (tag, posts ! i,
      if i = 0 then None else Some (posts ! (i - 1)),
      if Suc i = length posts then None else Some (posts ! Suc i))"

definition expected_calls :: "path option \<Rightarrow> path list \<Rightarrow> post_call list" where
  "expected_calls tag posts = map (call_at tag posts) [0..<length posts]"

text \<open>A step that appends effects to the log, with the given calls among them.\<close>

definition adds :: "world \<Rightarrow> world \<Rightarrow> post_call list \<Rightarrow> bool" where
  "adds w w' cs \<longleftrightarrow> (\<exists>new. effects w' = effects w @ new \<and> post_calls new = cs)"

lemma post_calls_append [simp]: "post_calls (a @ b) = post_calls a @ post_calls b"
  by (simp add: post_calls_def)

lemma post_calls_Nil [simp]: "post_calls [] = []"
  by (simp add: post_calls_def)

lemma adds_refl: "effects w' = effects w \<Longrightarrow> adds w w' []"
  by (simp add: adds_def)

lemma adds_trans: "adds w w1 cs1 \<Longrightarrow> adds w1 w2 cs2 \<Longrightarrow> adds w w2 (cs1 @ cs2)"
  by (auto simp: adds_def)

lemma adds_one: "effects w' = effects w @ [x] \<Longrightarrow> adds w w' (post_call x)"
  by (simp add: adds_def post_calls_def)

lemma cached_effects:
  assumes "\<And>w r w1. body w = (r, w1) \<Longrightarrow> effects w1 = effects w"
    and "cached a self body w = (r, w')"
  shows "effects w' = effects w"
proof (cases "memo w (a, self)")
  case (Some v)
  with assms(2) show ?thesis by (simp add: cached_def)
next
  case None
  obtain r1 w1 where b: "body w = (r1, w1)"
    by (cases "body w")
  from assms(1) [OF b] have "effects w1 = effects w" by simp
  with None b assms(2) show ?thesis by (cases r1) (auto simp: cached_def)
qed

lemma Post_name_effects: "Post_name p w = (r, w') \<Longrightarrow> effects w' = effects w"
  unfolding Post_name_def
  by (erule cached_effects [rotated])
    (auto simp: name_body_def computes_def split: sum.splits)

lemma Post_uri_effects: "Post_uri p w = (r, w') \<Longrightarrow> effects w' = effects w"
  unfolding Post_uri_def
  by (erule cached_effects [rotated])
    (auto simp: uri_body_def computes_def split: sum.splits prod.splits dest: Post_name_effects)

lemma Tag_name_method_effects: "Tag_name_method t w = (r, w') \<Longrightarrow> effects w' = effects w"
  unfolding Tag_name_method_def
  by (erule cached_effects [rotated])
    (auto simp: tag_name_body_def computes_def split: sum.splits)

lemma Tag_uri_effects: "Tag_uri t w = (r, w') \<Longrightarrow> effects w' = effects w"
  unfolding Tag_uri_def
  by (erule cached_effects [rotated])
    (auto simp: tag_uri_body_def computes_def split: sum.splits prod.splits dest: Tag_name_method_effects)

lemma Index_uri_effects: "Index_uri w = (r, w') \<Longrightarrow> effects w' = effects w"
  unfolding Index_uri_def
  by (erule cached_effects [rotated]) (auto simp: computes_def)

lemma write_file_adds: "write_file e f text w = (Inr (), w') \<Longrightarrow> adds w w' []"
  by (auto simp: write_file_def adds_def post_calls_def split: if_splits)

lemma save_html_adds: "save_html e p html tag w = (Inr (), w') \<Longrightarrow> adds w w' []"
proof (cases tag)
  case None
  assume a: "save_html e p html tag w = (Inr (), w')"
  with None obtain u w1 where u: "Post_uri p w = (Inr u, w1)"
    and wf: "write_file e (path_join HTMLDIR (str_of u)) html w1 = (Inr (), w')"
    by (auto simp: save_html_def split: prod.splits sum.splits)
  from adds_trans [OF adds_refl [OF Post_uri_effects [OF u]] write_file_adds [OF wf]]
  show ?thesis by simp
next
  case (Some t)
  assume a: "save_html e p html tag w = (Inr (), w')"
  with Some obtain tu w1 u w2 where tu: "Tag_uri t w = (Inr tu, w1)"
    and u: "Post_uri p w1 = (Inr u, w2)"
    and wf: "write_file e (path_join HTMLDIR (str_of tu @ str_of u)) html w2 = (Inr (), w')"
    by (auto simp: save_html_def split: prod.splits sum.splits)
  from adds_trans [OF adds_refl [OF Tag_uri_effects [OF tu]]
      adds_trans [OF adds_refl [OF Post_uri_effects [OF u]] write_file_adds [OF wf]]]
  show ?thesis by simp
qed

lemma Post_render_adds:
  assumes "Post_render e T p idx tag nxt prv w = (Inr (), w')"
  shows "adds w w' [(tag, p, nxt, prv)]"
proof -
  from assms obtain self html patched
    where rc: "render_call e (post_template T) (post_ctx self p idx tag nxt prv) w
                 = (Inr html, w\<lparr>effects := effects w
                      @ [Rendered (post_template T) (post_ctx self p idx tag nxt prv)]\<rparr>)"
      and sh: "save_html e p patched tag
                 (w\<lparr>effects := effects w
                      @ [Rendered (post_template T) (post_ctx self p idx tag nxt prv)]\<rparr>)
                 = (Inr (), w')"
    by (auto simp: Post_render_def render_call_def split: sum.splits prod.splits)
  let ?w1 = "w\<lparr>effects := effects w
               @ [Rendered (post_template T) (post_ctx self p idx tag nxt prv)]\<rparr>"
  have "adds w ?w1 (post_call (Rendered (post_template T) (post_ctx self p idx tag nxt prv)))"
    by (rule adds_one) simp
  then have "adds w ?w1 [(tag, p, nxt, prv)]"
    by (simp add: post_ctx_def no_args_def)
  from adds_trans [OF this save_html_adds [OF sh]] show ?thesis by simp
qed

lemma neighbour_next:
  "k < length posts \<Longrightarrow>
     neighbour posts (k = 0) (k - 1) = Inr (if k = 0 then None else Some (posts ! (k - 1)))"
  by (cases k) (simp_all add: neighbour_def py_index_def)

lemma neighbour_previous:
  "k < length posts \<Longrightarrow>
     neighbour posts (int k = int (length posts) - 1) (k + 1)
       = Inr (if Suc k = length posts then None else Some (posts ! Suc k))"
  by (auto simp: neighbour_def py_index_def)

lemma print_name_adds:
  assumes "(if names
            then (case Post_name post w of
                    (Inl err, w1) \<Rightarrow> (Inl err, w1)
                  | (Inr n, w1) \<Rightarrow> (Inr (), print_line (str_of n) w1))
            else (Inr (), w)) = (Inr (), w1)"
  shows "adds w w1 []"
proof (cases names)
  case False
  with assms show ?thesis by (simp add: adds_def)
next
  case True
  with assms obtain n w0 where n: "Post_name post w = (Inr n, w0)"
    and w1: "w1 = print_line (str_of n) w0"
    by (auto split: prod.splits sum.splits)
  from Post_name_effects [OF n] w1 show ?thesis
    by (simp add: adds_def print_line_def post_calls_def)
qed

lemma render_posts_adds:
  assumes "render_posts e T idx tag names posts (enumerate k (drop k posts)) w = (Inr (), w')"
  shows "adds w w' (map (call_at tag posts) [k..<length posts])"
  using assms
proof (induction "length posts - k" arbitrary: k w)
  case 0
  then show ?case by (simp add: adds_def)
next
  case (Suc d)
  then have k: "k < length posts" by simp
  then have en: "enumerate k (drop k posts)
                   = (k, posts ! k) # enumerate (Suc k) (drop (Suc k) posts)"
    by (simp add: Cons_nth_drop_Suc [symmetric] enumerate_simps)
  let ?nxt = "if k = 0 then None else Some (posts ! (k - 1))"
  let ?prv = "if Suc k = length posts then None else Some (posts ! Suc k)"
  from Suc.prems obtain w1 w2
    where pn: "(if names
            then (case Post_name (posts ! k) w of
                    (Inl err, w1) \<Rightarrow> (Inl err, w1)
                  | (Inr n, w1) \<Rightarrow> (Inr (), print_line (str_of n) w1))
            else (Inr (), w)) = (Inr (), w1)"
      and pr: "Post_render e T (posts ! k) idx tag ?nxt ?prv w1 = (Inr (), w2)"
      and rest: "render_posts e T idx tag names posts (enumerate (Suc k) (drop (Suc k) posts)) w2
                   = (Inr (), w')"
    unfolding en render_posts.simps neighbour_next [OF k] neighbour_previous [OF k]
    by (auto split: prod.splits sum.splits)
  have d: "d = length posts - Suc k" using Suc.hyps(2) by simp
  from print_name_adds [OF pn] Post_render_adds [OF pr]
  have "adds w w2 ([] @ [call_at tag posts k])"
    unfolding call_at_def by (rule adds_trans)
  from adds_trans [OF this Suc.hyps(1) [OF d rest]]
  have "adds w w' (call_at tag posts k # map (call_at tag posts) [Suc k..<length posts])"
    by simp
  then show ?case using k by (simp add: upt_conv_Cons)
qed

lemma render_posts_all:
  assumes "render_posts e T idx tag names posts (enumerate 0 posts) w = (Inr (), w')"
  shows "adds w w' (expected_calls tag posts)"
  using render_posts_adds [of e T idx tag names posts 0 w w'] assms
  by (simp add: expected_calls_def)

lemma render_call_adds:
  assumes "render_call e t ctx w = (r, w')" and "\<forall>p. page ctx \<noteq> Some (PostObj p)"
  shows "adds w w' []"
proof -
  from assms(1) have "effects w' = effects w @ [Rendered t ctx]"
    by (auto simp: render_call_def)
  then have "adds w w' (post_call (Rendered t ctx))" by (rule adds_one)
  moreover have "post_call (Rendered t ctx) = []"
    using assms(2) by (auto split: option.splits obj.splits)
  ultimately show ?thesis by simp
qed

lemma Tag_render_adds:
  assumes "Tag_render e T t idx w = (Inr (), w')"
  shows "\<exists>g. tags_reg w t = Some g \<and> adds w w' (expected_calls (Some t) (tag_posts g))"
proof -
  from assms obtain g newest html w1 w2 u w3
    where g: "tags_reg w t = Some g"
      and rc: "render_call e (tag_template T)
                 (no_args\<lparr>page := Some (TagObj t), with_index := idx, with_tag := Some t,
                          newest_post := Some newest\<rparr>) w = (Inr html, w1)"
      and rp: "render_posts e T idx (Some t) False (tag_posts g) (enumerate 0 (tag_posts g)) w1
                 = (Inr (), w2)"
      and tu: "Tag_uri t w2 = (Inr u, w3)"
      and wf: "write_file e (path_join (path_join HTMLDIR (str_of u)) ''index.html'') html w3
                 = (Inr (), w')"
    by (auto simp: Tag_render_def get_tag_def split: option.splits prod.splits sum.splits)
  have 1: "adds w w1 []" using rc by (rule render_call_adds) simp
  note 2 = render_posts_all [OF rp]
  note 3 = adds_refl [OF Tag_uri_effects [OF tu]]
  note 4 = write_file_adds [OF wf]
  from adds_trans [OF adds_trans [OF adds_trans [OF 1 2] 3] 4] g show ?thesis by simp
qed

lemma expected_calls_tag: "c \<in> set (expected_calls tag posts) \<Longrightarrow> fst c = tag"
  by (auto simp: expected_calls_def call_at_def)

text \<open>The calls made while the tags are rendered all carry a tag.\<close>

lemma render_tags_adds:
  assumes "render_tags e T ts w = (Inr (), w')"
  shows "\<exists>cs. adds w w' cs \<and> (\<forall>c \<in> set cs. fst c \<noteq> None)"
  using assms
proof (induction ts arbitrary: w)
  case Nil
  then show ?case using adds_refl [of w w] by auto
next
  case (Cons t ts)
  from Cons.prems obtain n w1 w2 where n: "Tag_name_method t w = (Inr n, w1)"
    and tr: "Tag_render e T t True (print_line (str_of n) w1) = (Inr (), w2)"
    and rest: "render_tags e T ts w2 = (Inr (), w')"
    by (auto split: prod.splits sum.splits)
  have 1: "adds w (print_line (str_of n) w1) []"
    using Tag_name_method_effects [OF n] by (simp add: adds_def print_line_def post_calls_def)
  from Tag_render_adds [OF tr] obtain g :: tag
    where 2: "adds (print_line (str_of n) w1) w2 (expected_calls (Some t) (tag_posts g))"
    by blast
  from Cons.IH [OF rest] obtain cs where 3: "adds w2 w' cs" and cs: "\<forall>c \<in> set cs. fst c \<noteq> None"
    by blast
  from adds_trans [OF adds_trans [OF 1 2] 3]
  have "adds w w' (expected_calls (Some t) (tag_posts g) @ cs)" by simp
  moreover have "\<forall>c \<in> set (expected_calls (Some t) (tag_posts g) @ cs). fst c \<noteq> None"
    using cs expected_calls_tag by fastforce
  ultimately show ?case by blast
qed

lemma write_files_adds: "write_files e files w = (Inr (), w') \<Longrightarrow> adds w w' []"
proof (induction files arbitrary: w)
  case Nil
  then show ?case by (simp add: adds_def)
next
  case (Cons f files)
  obtain name content where f: "f = (name, content)" by (cases f)
  from Cons.prems f obtain w1 where 1: "write_file e name content w = (Inr (), w1)"
    and 2: "write_files e files w1 = (Inr (), w')"
    by (auto split: prod.splits sum.splits)
  from adds_trans [OF write_file_adds [OF 1] Cons.IH [OF 2]] show ?case by simp
qed

lemma verification_document_adds:
  "verification_document e name w = (Inr d, w') \<Longrightarrow> adds w w' []"
  by (auto simp: verification_document_def no_args_def split: sum.splits
      intro: render_call_adds)

lemma Index_render_adds:
  assumes "Index_render e T self w = (Inr (), w')"
  shows "\<exists>cs. adds w w' (expected_calls None (index_posts self) @ cs) \<and>
              (\<forall>c \<in> set cs. fst c \<noteq> None)"
proof -
  from assms obtain newest html w1 now w2 xml w3 sitemap w4 bing w5 google w6 yandex w7 w8 w9 u w10
    where r1: "render_call e (index_template T)
                 (no_args\<lparr>page := Some IndexObj, with_index := True, newest_post := Some newest\<rparr>) w
                 = (Inr html, w1)"
      and r2: "utcnow e w1 = (now, w2)"
      and r3: "render_call e (xml_template T)
                 (no_args\<lparr>page := Some IndexObj, with_index := True, date := Some now\<rparr>) w2
                 = (Inr xml, w3)"
      and r4: "render_call e (sitemap_template T)
                 (no_args\<lparr>pages := IndexObj # map PostObj (index_posts self)
                                     @ map TagObj (index_tags self)\<rparr>) w3 = (Inr sitemap, w4)"
      and r5: "verification_document e bingverification w4 = (Inr bing, w5)"
      and r6: "verification_document e googleverification w5 = (Inr google, w6)"
      and r7: "verification_document e yandexverification w6 = (Inr yandex, w7)"
      and r8: "render_posts e T True None True (index_posts self) (enumerate 0 (index_posts self))
                 (print_line (newline @ ''posts:'' @ newline @ ''------'') w7) = (Inr (), w8)"
      and r9: "render_tags e T (index_tags self)
                 (print_line (newline @ ''tags:'' @ newline @ ''-----'') w8) = (Inr (), w9)"
      and r10: "Index_uri w9 = (Inr u, w10)"
      and r11: "write_files e
            [(path_join HTMLDIR (str_of u), html),
             (path_join HTMLDIR (take (length (str_of u) - 5) (str_of u)) @ ''.xml'', xml),
             (path_join HTMLDIR ''sitemap.xml'', sitemap),
             (path_join HTMLDIR bingverification, bing),
             (path_join HTMLDIR googleverification, google),
             (path_join HTMLDIR yandexverification, yandex)] w10 = (Inr (), w')"
    unfolding Index_render_def
    by (auto split: prod.splits sum.splits)
  have a1: "adds w w1 []" using r1 by (rule render_call_adds) simp
  have a2: "adds w1 w2 []" using r2 by (auto simp: utcnow_def adds_def)
  have a3: "adds w2 w3 []" using r3 by (rule render_call_adds) simp
  have a4: "adds w3 w4 []" using r4 by (rule render_call_adds) (simp add: no_args_def)
  note a5 = verification_document_adds [OF r5]
  note a6 = verification_document_adds [OF r6]
  note a7 = verification_document_adds [OF r7]
  have p7: "adds w7 (print_line (newline @ ''posts:'' @ newline @ ''------'') w7) []"
    by (simp add: adds_def print_line_def post_calls_def)
  note a8 = render_posts_all [OF r8]
  have p8: "adds w8 (print_line (newline @ ''tags:'' @ newline @ ''-----'') w8) []"
    by (simp add: adds_def print_line_def post_calls_def)
  from render_tags_adds [OF r9] obtain cs
    where a9: "adds (print_line (newline @ ''tags:'' @ newline @ ''-----'') w8) w9 cs"
      and cs: "\<forall>c \<in> set cs. fst c \<noteq> None"
    by blast
  note a10 = adds_refl [OF Index_uri_effects [OF r10]]
  note a11 = write_files_adds [OF r11]
  have "adds w w7 []"
    using adds_trans [OF adds_trans [OF adds_trans [OF adds_trans [OF adds_trans
      [OF adds_trans [OF a1 a2] a3] a4] a5] a6] a7]
    by simp
  from adds_trans [OF adds_trans [OF this p7] a8]
  have "adds w w8 (expected_calls None (index_posts self))" by simp
  from adds_trans [OF adds_trans [OF adds_trans [OF adds_trans [OF this p8] a9] a10] a11]
  have "adds w w' (expected_calls None (index_posts self) @ cs)" by simp
  with cs show ?thesis by blast
qed

text \<open>
  C5. The calls of \<open>Post.render\<close> that a run of \<open>Index.render\<close> makes without a tag
  are, in order, one for each post of the index, with the post before it in the list
  as \<open>next_post\<close> and the post after it as \<open>previous_post\<close>; the first post has no
  next and the last no previous. A run of \<open>Tag.render\<close> makes the same calls along
  the member list of the tag, each with the tag.
\<close>

theorem render_neighbours:
  "(Index_render e T self w = (Inr (), w') \<longrightarrow>
      (\<exists>new. effects w' = effects w @ new \<and>
             filter (\<lambda>c. fst c = None) (post_calls new)
               = map (\<lambda>i. (None, index_posts self ! i,
                            if i = 0 then None else Some (index_posts self ! (i - 1)),
                            if Suc i = length (index_posts self) then None
                            else Some (index_posts self ! Suc i)))
                   [0..<length (index_posts self)])) \<and>
   (Tag_render e T t idx w = (Inr (), w') \<longrightarrow>
      (\<exists>g new. tags_reg w t = Some g \<and> effects w' = effects w @ new \<and>
             post_calls new
               = map (\<lambda>i. (Some t, tag_posts g ! i,
                            if i = 0 then None else Some (tag_posts g ! (i - 1)),
                            if Suc i = length (tag_posts g) then None
                            else Some (tag_posts g ! Suc i)))
                   [0..<length (tag_posts g)]))"
proof (intro conjI impI)
  assume "Index_render e T self w = (Inr (), w')"
  from Index_render_adds [OF this] obtain cs new
    where n: "effects w' = effects w @ new"
      and c: "post_calls new = expected_calls None (index_posts self) @ cs"
      and cs: "\<forall>c \<in> set cs. fst c \<noteq> None"
    by (auto simp: adds_def)
  have "filter (\<lambda>c. fst c = None) (expected_calls None (index_posts self))
          = expected_calls None (index_posts self)"
    by (rule filter_True) (simp add: expected_calls_tag)
  moreover have "filter (\<lambda>c. fst c = None) cs = []"
    using cs by (simp add: filter_empty_conv)
  ultimately have "filter (\<lambda>c. fst c = None) (post_calls new)
          = expected_calls None (index_posts self)"
    using c by simp
  with n show "\<exists>new. effects w' = effects w @ new \<and>
             filter (\<lambda>c. fst c = None) (post_calls new)
               = map (\<lambda>i. (None, index_posts self ! i,
                            if i = 0 then None else Some (index_posts self ! (i - 1)),
                            if Suc i = length (index_posts self) then None
                            else Some (index_posts self ! Suc i)))
                   [0..<length (index_posts self)]"
    unfolding expected_calls_def call_at_def by blast
next
  assume "Tag_render e T t idx w = (Inr (), w')"
  from Tag_render_adds [OF this] obtain g :: tag and new
    where "tags_reg w t = Some g" "effects w' = effects w @ new"
      "post_calls new = expected_calls (Some t) (tag_posts g)"
    by (auto simp: adds_def)
  then show "\<exists>g new. tags_reg w t = Some g \<and> effects w' = effects w @ new \<and>
             post_calls new
               = map (\<lambda>i. (Some t, tag_posts g ! i,
                            if i = 0 then None else Some (tag_posts g ! (i - 1)),
                            if Suc i = length (tag_posts g) then None
                            else Some (tag_posts g ! Suc i)))
                   [0..<length (tag_posts g)]"
    unfolding expected_calls_def call_at_def by blast
qed

definition blog_world :: world where
  "blog_world = snd (Index_init blog_env start)"

lemma blog_render_returns:
  "fst (Index_render blog_env plain_templates blog_index blog_world) = Inr ()"
  by code_simp

lemma blog_world_no_calls: "post_calls (effects blog_world) = []"
  by code_simp

theorem render_neighbours_witness:
  "fst (Index_render blog_env plain_templates blog_index blog_world) = Inr () \<and>
   filter (\<lambda>c. fst c = None)
     (post_calls (effects (snd (Index_render blog_env plain_templates blog_index blog_world))))
     = [(None, ''posts/a.md'', None, Some ''posts/c.html''),
        (None, ''posts/c.html'', Some ''posts/a.md'', Some ''posts/b.md''),
        (None, ''posts/b.md'', Some ''posts/c.html'', None)]"
proof -
  let ?w' = "snd (Index_render blog_env plain_templates blog_index blog_world)"
  have run: "Index_render blog_env plain_templates blog_index blog_world = (Inr (), ?w')"
    using blog_render_returns by (simp add: prod_eq_iff)
  from render_neighbours [of blog_env plain_templates blog_index blog_world ?w']
  obtain new where n: "effects ?w' = effects blog_world @ new"
    and f: "filter (\<lambda>c. fst c = None) (post_calls new)
              = map (\<lambda>i. (None, index_posts blog_index ! i,
                            if i = 0 then None else Some (index_posts blog_index ! (i - 1)),
                            if Suc i = length (index_posts blog_index) then None
                            else Some (index_posts blog_index ! Suc i)))
                   [0..<length (index_posts blog_index)]"
    using run by blast
  have three: "[0..<length (index_posts blog_index)] = [0, 1, 2]"
    by (simp add: blog_index_def upt_conv_Cons)
  have "filter (\<lambda>c. fst c = None) (post_calls (effects ?w'))
          = filter (\<lambda>c. fst c = None) (post_calls new)"
    unfolding n by (simp add: blog_world_no_calls)
  also have "\<dots> = [(None, ''posts/a.md'', None, Some ''posts/c.html''),
        (None, ''posts/c.html'', Some ''posts/a.md'', Some ''posts/b.md''),
        (None, ''posts/b.md'', Some ''posts/c.html'', None)]"
    unfolding f three by (simp add: blog_index_def)
  finally show ?thesis using blog_render_returns by simp
qed

text \<open>
  C10. \<open>Index.render\<close> of an index without posts and \<open>Tag.render\<close> of a tag without
  members raise \<open>IndexError\<close> and leave the state as it was: the first statement of
  either reads \<open>self.posts[0]\<close>, before any template is rendered and any file written.
\<close>

theorem render_without_posts_IndexError:
  "(index_posts self = [] \<longrightarrow> Index_render e T self w = (Inl IndexError, w)) \<and>
   (tags_reg w t = Some g \<and> tag_posts g = [] \<longrightarrow> Tag_render e T t idx w = (Inl IndexError, w))"
  by (simp add: Index_render_def Tag_render_def get_tag_def py_index_def)

definition lonely_world :: world where
  "lonely_world = start\<lparr>tags_reg := [''tags/lonely'' \<mapsto> \<lparr>tag_path = ''tags/lonely'', tag_posts = []\<rparr>]\<rparr>"

theorem render_without_posts_IndexError_witness:
  "index_posts \<lparr>index_posts = [], index_tags = [''tags/lonely'']\<rparr> = [] \<and>
   fst (Index_render bare_env plain_templates \<lparr>index_posts = [], index_tags = [''tags/lonely'']\<rparr>
          lonely_world) = Inl IndexError \<and>
   effects (snd (Index_render bare_env plain_templates
                   \<lparr>index_posts = [], index_tags = [''tags/lonely'']\<rparr> lonely_world)) = [] \<and>
   fst (Tag_render bare_env plain_templates ''tags/lonely'' True lonely_world) = Inl IndexError \<and>
   effects (snd (Tag_render bare_env plain_templates ''tags/lonely'' True lonely_world)) = []"
proof -
  have t: "tags_reg lonely_world ''tags/lonely''
             = Some \<lparr>tag_path = ''tags/lonely'', tag_posts = []\<rparr>"
    by (simp add: lonely_world_def)
  have e: "effects lonely_world = []" by (simp add: lonely_world_def start_def)
  from render_without_posts_IndexError
    [of "\<lparr>index_posts = [], index_tags = [''tags/lonely'']\<rparr>" bare_env plain_templates
        lonely_world "''tags/lonely''" "\<lparr>tag_path = ''tags/lonely'', tag_posts = []\<rparr>" True]
  show ?thesis using t e by simp
qed

text \<open>
  C8. For a name with no file under the templates directory, \<open>get_template\<close> returns
  the template of the empty source, which renders to the empty string whatever the
  arguments; so each of the three verification documents is empty when its file is
  absent.
\<close>

theorem missing_template_renders_empty:
  "(fs e (path_join TEMPLATEDIR name) = None \<longrightarrow>
      get_template e name = Inr (Template []) \<and>
      render_template e (Template []) ctx = Inr [] \<and>
      fst (verification_document e name w) = Inr []) \<and>
   (fs e (path_join TEMPLATEDIR bingverification) = None \<longrightarrow>
      fst (verification_document e bingverification w) = Inr []) \<and>
   (fs e (path_join TEMPLATEDIR googleverification) = None \<longrightarrow>
      fst (verification_document e googleverification w) = Inr []) \<and>
   (fs e (path_join TEMPLATEDIR yandexverification) = None \<longrightarrow>
      fst (verification_document e yandexverification w) = Inr [])"
  by (simp add: get_template_def verification_document_def render_call_def)

theorem missing_template_renders_empty_witness:
  "fs blog_env (path_join TEMPLATEDIR bingverification) = None \<and>
   get_template blog_env bingverification = Inr (Template []) \<and>
   render_template blog_env (Template []) no_args = Inr [] \<and>
   fst (verification_document blog_env bingverification start) = Inr []"
proof -
  have a: "fs blog_env (path_join TEMPLATEDIR bingverification) = None" by code_simp
  from missing_template_renders_empty [of blog_env bingverification no_args start] a
  show ?thesis by simp
qed

section \<open>The caches over a whole run\<close>

text \<open>
  The log and the caches agree when every value in a cache has been computed once,
  and nothing else has been computed: the keys of the caches are the entries of the
  log, and no entry stands twice.
\<close>

definition log_ok :: "world \<Rightarrow> bool" where
  "log_ok w \<longleftrightarrow> distinct (computed w) \<and> set (computed w) = {k. memo w k \<noteq> None}"

text \<open>A step that keeps every cached value, and keeps the log and the caches in agreement.\<close>

definition keeps :: "world \<Rightarrow> world \<Rightarrow> bool" where
  "keeps w w' \<longleftrightarrow> memo_le w w' \<and> (log_ok w \<longrightarrow> log_ok w')"

lemma keeps_refl [simp]: "keeps w w"
  by (simp add: keeps_def)



lemma update_post_computed [simp]: "computed (update_post p f w) = computed w"
  by (simp add: update_post_def split: option.splits)

lemma update_tag_computed [simp]: "computed (update_tag t f w) = computed w"
  by (simp add: update_tag_def split: option.splits)

lemma keeps_frame [simp]:
  "keeps w (update_post p f w') \<longleftrightarrow> keeps w w'"
  "keeps w (update_tag t g w') \<longleftrightarrow> keeps w w'"
  "keeps w (w'\<lparr>effects := x\<rparr>) \<longleftrightarrow> keeps w w'"
  "keeps w (w'\<lparr>posts_reg := y\<rparr>) \<longleftrightarrow> keeps w w'"
  "keeps w (w'\<lparr>tags_reg := z\<rparr>) \<longleftrightarrow> keeps w w'"
  "keeps w (w'\<lparr>clock_reads := n\<rparr>) \<longleftrightarrow> keeps w w'"
  "keeps w (w'\<lparr>tokens_drawn := m\<rparr>) \<longleftrightarrow> keeps w w'"
  "keeps w (print_line s w') \<longleftrightarrow> keeps w w'"
  by (simp_all add: keeps_def memo_le_def log_ok_def print_line_def)

lemma keeps_frame_left [simp]:
  "keeps (update_post p f w) w' \<longleftrightarrow> keeps w w'"
  "keeps (update_tag t g w) w' \<longleftrightarrow> keeps w w'"
  "keeps (w\<lparr>effects := x\<rparr>) w' \<longleftrightarrow> keeps w w'"
  "keeps (w\<lparr>posts_reg := y\<rparr>) w' \<longleftrightarrow> keeps w w'"
  "keeps (w\<lparr>tags_reg := z\<rparr>) w' \<longleftrightarrow> keeps w w'"
  "keeps (w\<lparr>clock_reads := n\<rparr>) w' \<longleftrightarrow> keeps w w'"
  "keeps (w\<lparr>tokens_drawn := m\<rparr>) w' \<longleftrightarrow> keeps w w'"
  "keeps (print_line s w) w' \<longleftrightarrow> keeps w w'"
  by (simp_all add: keeps_def memo_le_def log_ok_def print_line_def)





subsection \<open>The memoised methods\<close>




















subsection \<open>The constructors\<close>











subsection \<open>Tags and the index\<close>













subsection \<open>Rendering\<close>














subsection \<open>Every later call\<close>










definition hello :: path where
  "hello = ''posts/hello.md''"



end
